theory Spec2Isabelle
  imports Main "HOL-Library.Multiset"
begin

section \<open>The DOM\<close>

text \<open>
  A DOM element is known by its identity (the object reference of the source). Its
  \<open>dataset\<close> maps the name of a \<open>data-*\<close> attribute, in the camel case of the source
  (\<open>swapySlot\<close> for \<open>data-swapy-slot\<close>), to its value; an absent attribute reads
  \<open>undefined\<close>, here \<open>None\<close>. The datasets of all elements are one store.
\<close>

type_synonym elem = nat
type_synonym dataset = "string \<rightharpoonup> string"

text \<open>
  What a query sees: the tree of elements below a root at the moment of the query. In a
  document the identities of a tree are distinct. Validation, tagging and the
  registries only query the tree and write datasets; they never change its shape.
\<close>

datatype node = Node (ident: elem) (children: "node list")

text \<open>The proper descendants of an element, in document order.\<close>

fun descendants :: "node \<Rightarrow> node list" where
  "descendants (Node e cs) = concat (map (\<lambda>c. c # descendants c) cs)"

text \<open>
  \<open>root.querySelectorAll('[data-attr]')\<close> and \<open>root.querySelector('[data-attr]')\<close>: the
  descendants that carry the attribute, whatever its value; the first of them.
\<close>

definition querySelectorAll :: "(elem \<Rightarrow> dataset) \<Rightarrow> string \<Rightarrow> node \<Rightarrow> node list" where
  "querySelectorAll data attr root = filter (\<lambda>el. data (ident el) attr \<noteq> None) (descendants root)"

definition querySelector :: "(elem \<Rightarrow> dataset) \<Rightarrow> string \<Rightarrow> node \<Rightarrow> node option" where
  "querySelector data attr root = List.find (\<lambda>el. data (ident el) attr \<noteq> None) (descendants root)"

text \<open>\<open>el.dataset.key = v\<close>.\<close>

definition setData :: "elem \<Rightarrow> string \<Rightarrow> string \<Rightarrow> (elem \<Rightarrow> dataset) \<Rightarrow> (elem \<Rightarrow> dataset)" where
  "setData e key v data = data(e := (data e)(key \<mapsto> v))"

text \<open>
  What reparenting edits: the children table, for each element the list of its child
  elements. It holds the elements by identity, so an element that a slot has dropped
  is still there for the registry that refers to it. \<open>childrenTable\<close> reads the table
  off a tree. The synchronizer only edits the table; it never reads a dataset.
\<close>

definition childrenTable :: "node \<Rightarrow> elem \<Rightarrow> elem list" where
  "childrenTable root e =
     (case List.find (\<lambda>el. ident el = e) (root # descendants root) of
        None \<Rightarrow> []
      | Some el \<Rightarrow> map ident (children el))"

text \<open>
  \<open>contains k a e\<close>: \<open>a\<close> is an inclusive ancestor of \<open>e\<close> in the children table \<open>k\<close>.
\<close>

inductive contains :: "(elem \<Rightarrow> elem list) \<Rightarrow> elem \<Rightarrow> elem \<Rightarrow> bool"
  for k :: "elem \<Rightarrow> elem list" where
  self: "contains k e e"
| below: "c \<in> set (k a) \<Longrightarrow> contains k c e \<Longrightarrow> contains k a e"

code_pred contains .

datatype dom_exception = HierarchyRequestError

text \<open>\<open>slot.innerHTML = ''\<close>: the slot loses all its children.\<close>

definition clearInner :: "elem \<Rightarrow> (elem \<Rightarrow> elem list) \<Rightarrow> (elem \<Rightarrow> elem list)" where
  "clearInner slot k = k(slot := [])"

text \<open>
  \<open>parent.appendChild(node)\<close>: the DOM refuses (HierarchyRequestError) a node that is
  an inclusive ancestor of the parent; otherwise the node leaves the child list it is
  in and becomes the last child of the parent.
\<close>

definition appendChild ::
  "elem \<Rightarrow> elem \<Rightarrow> (elem \<Rightarrow> elem list) \<Rightarrow> dom_exception + (elem \<Rightarrow> elem list)" where
  "appendChild parent node k =
     (if contains k node parent then Inl HierarchyRequestError
      else Inr ((\<lambda>p. removeAll node (k p))(parent := removeAll node (k parent) @ [node])))"

section \<open>Structural validator\<close>

text \<open>\<open>!id || id.length === 0\<close>.\<close>

definition blank :: "string option \<Rightarrow> bool" where
  "blank v \<longleftrightarrow> (case v of None \<Rightarrow> True | Some s \<Rightarrow> s = [])"

text \<open>
  One constructor for each \<open>console.error\<close> of \<open>validate\<close>, with the element or the
  slot id it prints.
\<close>

datatype diagnostic =
  NoSlots elem
  | MissingSlotId elem
  | TooManyChildren "string option"
  | UnlabelledChild "string option"

text \<open>
  The body of \<open>slotElements.forEach\<close>; the accumulator is \<open>isValid\<close> and the console.
\<close>

definition validateSlot ::
  "(elem \<Rightarrow> dataset) \<Rightarrow> node \<Rightarrow> bool \<times> diagnostic list \<Rightarrow> bool \<times> diagnostic list" where
  "validateSlot data slot acc =
     (let slotId = data (ident slot) ''swapySlot'';
          acc1 = (if blank slotId then (False, snd acc @ [MissingSlotId (ident slot)]) else acc);
          slotChildren = children slot;
          acc2 = (if length slotChildren > 1 then (False, snd acc1 @ [TooManyChildren slotId])
                  else acc1)
      in (case slotChildren of
            [] \<Rightarrow> acc2
          | slotChild # others \<Rightarrow>
              if blank (data (ident slotChild) ''swapyItem'')
              then (False, snd acc2 @ [UnlabelledChild slotId])
              else acc2))"

definition validate :: "(elem \<Rightarrow> dataset) \<Rightarrow> node \<Rightarrow> bool \<times> diagnostic list" where
  "validate data root =
     (let slotElements = querySelectorAll data ''swapySlot'' root
      in fold (validateSlot data) slotElements
           (if slotElements = [] then (False, [NoSlots (ident root)]) else (True, [])))"

section \<open>Attribute tagger\<close>

datatype animation_type = Dynamic | Spring | NoAnimation

fun animationName :: "animation_type \<Rightarrow> string" where
  "animationName Dynamic = ''dynamic''"
| "animationName Spring = ''spring''"
| "animationName NoAnimation = ''none''"

text \<open>
  A key of \<open>Partial<Config>\<close>: left out, present with the value \<open>undefined\<close>, or
  present with a value.
\<close>

datatype 'a key = Absent | Undefined | Given 'a

record user_config =
  userAnimation :: "animation_type key"
  userContinuousMode :: "bool key"

text \<open>The merged configuration; a field is \<open>None\<close> when it is \<open>undefined\<close>.\<close>

record config =
  animation :: "animation_type option"
  continuousMode :: "bool option"

definition DEFAULT_CONFIG :: config where
  "DEFAULT_CONFIG = \<lparr>animation = Some Dynamic, continuousMode = Some True\<rparr>"

text \<open>
  \<open>{ ...DEFAULT_CONFIG, ...userConfig }\<close>: a key that is present overrides the default,
  also with the value \<open>undefined\<close>.
\<close>

definition mergeConfig :: "config \<Rightarrow> user_config \<Rightarrow> config" where
  "mergeConfig defaults userConfig =
     \<lparr>animation =
        (case userAnimation userConfig of
           Absent \<Rightarrow> animation defaults | Undefined \<Rightarrow> None | Given a \<Rightarrow> Some a),
      continuousMode =
        (case userContinuousMode userConfig of
           Absent \<Rightarrow> continuousMode defaults | Undefined \<Rightarrow> None | Given c \<Rightarrow> Some c)\<rparr>"

text \<open>Assigning \<open>undefined\<close> to a dataset property stores the string \<open>undefined\<close>.\<close>

definition jsString :: "string option \<Rightarrow> string" where
  "jsString v = (case v of None \<Rightarrow> ''undefined'' | Some s \<Rightarrow> s)"

text \<open>
  The three statements that \<open>addVeloxiDataAttributes\<close> and \<open>resyncItems\<close> share for an
  item: the view marker, the layout id, and the view marker of its first handle.
\<close>

definition markItem :: "node \<Rightarrow> (elem \<Rightarrow> dataset) \<Rightarrow> (elem \<Rightarrow> dataset)" where
  "markItem item data =
     (let d1 = setData (ident item) ''velView'' ''item'' data;
          d2 = setData (ident item) ''velLayoutId'' (jsString (d1 (ident item) ''swapyItem'')) d1
      in (case querySelector d2 ''swapyHandle'' item of
            None \<Rightarrow> d2
          | Some handle \<Rightarrow> setData (ident handle) ''velView'' ''handle'' d2))"

text \<open>\<open>els.forEach((el) => { el.dataset.key = '' })\<close>.\<close>

definition markAll :: "string \<Rightarrow> node list \<Rightarrow> (elem \<Rightarrow> dataset) \<Rightarrow> (elem \<Rightarrow> dataset)" where
  "markAll key els data = fold (\<lambda>el. setData (ident el) key []) els data"

text \<open>
  \<open>pluginKey\<close> is the result of \<open>getUniqueId()\<close>, which is not among the sources. An
  \<open>undefined\<close> animation is stamped as the string \<open>undefined\<close>; the continuous-mode
  marker is stamped only for \<open>true\<close>.
\<close>

definition addVeloxiDataAttributes ::
  "string \<Rightarrow> node \<Rightarrow> config \<Rightarrow> (elem \<Rightarrow> dataset) \<Rightarrow> (elem \<Rightarrow> dataset)" where
  "addVeloxiDataAttributes pluginKey root cfg data =
     (let d1 = setData (ident root) ''velPluginKey'' pluginKey data;
          d2 = setData (ident root) ''velPlugin'' ''Swapy'' d1;
          d3 = setData (ident root) ''velView'' ''root'' d2;
          d4 = setData (ident root) ''velDataConfigAnimation''
                 (jsString (map_option animationName (animation cfg))) d3;
          d5 = (if continuousMode cfg = Some True
                then setData (ident root) ''velDataConfigContinuousMode'' ''true'' d4 else d4);
          d6 = fold (\<lambda>slot. setData (ident slot) ''velView'' ''slot'')
                 (querySelectorAll d5 ''swapySlot'' root) d5;
          d7 = fold markItem (querySelectorAll d6 ''swapyItem'' root) d6;
          d8 = markAll ''velLayoutPosition'' (querySelectorAll d7 ''swapyText'' root) d7
      in markAll ''velIgnore'' (querySelectorAll d8 ''swapyExclude'' root) d8)"

text \<open>The body of \<open>items.forEach\<close> of \<open>resyncItems\<close>.\<close>

definition resyncItem :: "node \<Rightarrow> (elem \<Rightarrow> dataset) \<Rightarrow> (elem \<Rightarrow> dataset)" where
  "resyncItem item data =
     (let d1 = markItem item data;
          d2 = markAll ''velLayoutPosition'' (querySelectorAll d1 ''swapyText'' item) d1
      in markAll ''velIgnore'' (querySelectorAll d2 ''swapyExclude'' item) d2)"

text \<open>\<open>root.querySelectorAll('[data-swapy-item]:not([data-vel-view]')\<close>.\<close>

definition untaggedItems :: "(elem \<Rightarrow> dataset) \<Rightarrow> node \<Rightarrow> node list" where
  "untaggedItems data root =
     filter (\<lambda>el. data (ident el) ''swapyItem'' \<noteq> None \<and> data (ident el) ''velView'' = None)
       (descendants root)"

definition resyncItems :: "node \<Rightarrow> (elem \<Rightarrow> dataset) \<Rightarrow> bool \<times> (elem \<Rightarrow> dataset)" where
  "resyncItems root data =
     (let items = untaggedItems data root
      in (items \<noteq> [], fold resyncItem items data))"

section \<open>The instance and its registries\<close>

text \<open>
  An assignment map is the JavaScript \<open>Map<string, string | null>\<close> of the engine:
  its entries in insertion order, \<open>None\<close> for \<open>null\<close>. \<open>Map.get\<close> is \<open>map_of\<close>,
  which answers \<open>None\<close> for \<open>undefined\<close>; \<open>Map.keys()\<close> is \<open>map fst\<close>.
\<close>

type_synonym assignment = "(string \<times> string option) list"

text \<open>The swap event of the engine: the candidate map and the metadata that come with it.\<close>

record swap_event =
  emap :: assignment
  emeta :: string

text \<open>
  The callback is code of the host. It is known by a name, and what the handler sees
  of a call is whether it returns or throws, which may depend on the event. Each
  invocation is recorded in \<open>calls\<close> of the page below, with the event it was handed.
\<close>

datatype callback = Callback (callbackName: nat) (callbackThrows: "swap_event \<Rightarrow> bool")

text \<open>The fields of class \<open>Swapy\<close> that the handlers read and write.\<close>

record swapy =
  slotElMap :: "string \<rightharpoonup> elem"
  itemElMap :: "string \<rightharpoonup> elem"
  swapCallback :: "callback option"
  previousMap :: "assignment option"

text \<open>
  \<open>map.set(el.dataset.key, el)\<close> inside the \<open>reduce\<close> of \<open>_createSlotElMap\<close> and
  \<open>_createItemElMap\<close>: a later element with the same id overwrites the entry. The
  elements come from a query for that attribute, so the id is never \<open>undefined\<close>.
\<close>

definition register ::
  "string \<Rightarrow> (elem \<Rightarrow> dataset) \<Rightarrow> node \<Rightarrow> (string \<rightharpoonup> elem) \<Rightarrow> (string \<rightharpoonup> elem)" where
  "register key data el m =
     (case data (ident el) key of None \<Rightarrow> m | Some name \<Rightarrow> m(name \<mapsto> ident el))"

definition createSlotElMap :: "(elem \<Rightarrow> dataset) \<Rightarrow> node \<Rightarrow> (string \<rightharpoonup> elem)" where
  "createSlotElMap data rootEl =
     fold (register ''swapySlot'' data) (querySelectorAll data ''swapySlot'' rootEl) Map.empty"

definition createItemElMap :: "(elem \<Rightarrow> dataset) \<Rightarrow> node \<Rightarrow> (string \<rightharpoonup> elem)" where
  "createItemElMap data rootEl =
     fold (register ''swapyItem'' data) (querySelectorAll data ''swapyItem'' rootEl) Map.empty"

text \<open>
  The constructor of \<open>Swapy\<close>. Its two subscriptions are the handlers \<open>onInit\<close> and
  \<open>onSwap\<close> below, its mutation observer is \<open>onMutations\<close>.
\<close>

definition newSwapy :: "(elem \<Rightarrow> dataset) \<Rightarrow> node \<Rightarrow> swapy" where
  "newSwapy data rootEl =
     \<lparr>slotElMap = createSlotElMap data rootEl,
      itemElMap = createItemElMap data rootEl,
      swapCallback = None,
      previousMap = None\<rparr>"

datatype creation_error = MissingRoot | InvalidStructure

text \<open>
  \<open>createSwapy\<close> returns the instance or the error it throws, together with the
  dataset store it leaves and the diagnostics it printed.
\<close>

definition createSwapy ::
  "string \<Rightarrow> node option \<Rightarrow> user_config \<Rightarrow> (elem \<Rightarrow> dataset)
    \<Rightarrow> (creation_error + swapy) \<times> (elem \<Rightarrow> dataset) \<times> diagnostic list" where
  "createSwapy pluginKey root userConfig data =
     (case root of
        None \<Rightarrow> (Inl MissingRoot, data, [])
      | Some rootEl \<Rightarrow>
          (let cfg = mergeConfig DEFAULT_CONFIG userConfig;
               (isValid, console) = validate data rootEl
           in if \<not> isValid then (Inl InvalidStructure, data, console)
              else
                (let data' = addVeloxiDataAttributes pluginKey rootEl cfg data
                 in (Inr (newSwapy data' rootEl), data', console))))"

section \<open>Live-tree watcher\<close>

datatype mutation_type = ChildList | Attributes | CharacterData

text \<open>
  The callback of the mutation observer; \<open>rootEl\<close> is the tree below the root at the
  time of the callback.
\<close>

definition onMutations ::
  "node \<Rightarrow> mutation_type list \<Rightarrow> (elem \<Rightarrow> dataset) \<times> ('a swapy_scheme)
    \<Rightarrow> (elem \<Rightarrow> dataset) \<times> ('a swapy_scheme)" where
  "onMutations rootEl mutations state =
     (case state of (data, this) \<Rightarrow>
        if list_ex (\<lambda>mutation. mutation = ChildList) mutations
        then
          (case resyncItems rootEl data of
             (True, data') \<Rightarrow>
               (data', this\<lparr>slotElMap := createSlotElMap data' rootEl,
                             itemElMap := createItemElMap data' rootEl\<rparr>)
           | (False, data') \<Rightarrow> (data', this))
        else (data, this))"

section \<open>Assignment synchronizer\<close>

text \<open>
  The page is the instance together with what its handlers can change outside it: the
  children table of the live DOM and the trace of callback invocations.
\<close>

record page = swapy +
  kids :: "elem \<Rightarrow> elem list"
  calls :: "(callback \<times> swap_event) list"

text \<open>
  Modelled from the spec: \<open>mapsAreEqual\<close> of \<open>./utils\<close>, which is not among the
  sources. The spec calls two maps value-set-equal when they hold the same
  key-to-value pairs, the order of the keys being irrelevant.
\<close>

definition mapsAreEqual :: "assignment \<Rightarrow> assignment \<Rightarrow> bool" where
  "mapsAreEqual a b \<longleftrightarrow> set a = set b"

text \<open>\<open>this._previousMap?.get(slotName)\<close>: \<open>undefined\<close> when no map is stored.\<close>

definition previousGet :: "assignment option \<Rightarrow> string \<Rightarrow> string option option" where
  "previousGet prev slotName = (case prev of None \<Rightarrow> None | Some m \<Rightarrow> map_of m slotName)"

text \<open>
  The body of the \<open>forEach\<close> of \<open>_applyOrder\<close> for one slot name. An exception
  leaves the table as it was when it was thrown: the slot already cleared.
\<close>

definition applySlot ::
  "('a swapy_scheme) \<Rightarrow> assignment \<Rightarrow> string \<Rightarrow> (elem \<Rightarrow> elem list)
    \<Rightarrow> (dom_exception \<times> (elem \<Rightarrow> elem list)) + (elem \<Rightarrow> elem list)" where
  "applySlot this m slotName k =
     (if map_of m slotName = previousGet (previousMap this) slotName then Inr k
      else
        (case map_of m slotName of
           Some (Some itemName) \<Rightarrow>
             (if itemName = [] then Inr k
              else
                (case slotElMap this slotName of
                   None \<Rightarrow> Inr k
                 | Some slot \<Rightarrow>
                     (case itemElMap this itemName of
                        None \<Rightarrow> Inr k
                      | Some item \<Rightarrow>
                          (case appendChild slot item (clearInner slot k) of
                             Inl x \<Rightarrow> Inl (x, clearInner slot k)
                           | Inr k' \<Rightarrow> Inr k'))))
         | _ \<Rightarrow> Inr k))"

text \<open>\<open>forEach\<close> over the slot names; an exception ends the loop.\<close>

fun forEachSlot ::
  "('a swapy_scheme) \<Rightarrow> assignment \<Rightarrow> string list \<Rightarrow> (elem \<Rightarrow> elem list)
    \<Rightarrow> (dom_exception \<times> (elem \<Rightarrow> elem list)) + (elem \<Rightarrow> elem list)" where
  "forEachSlot this m [] k = Inr k"
| "forEachSlot this m (slotName # rest) k =
     (case applySlot this m slotName k of
        Inl x \<Rightarrow> Inl x
      | Inr k' \<Rightarrow> forEachSlot this m rest k')"

definition applyOrder ::
  "('a swapy_scheme) \<Rightarrow> assignment \<Rightarrow> (elem \<Rightarrow> elem list)
    \<Rightarrow> (dom_exception \<times> (elem \<Rightarrow> elem list)) + (elem \<Rightarrow> elem list)" where
  "applyOrder this m k = forEachSlot this m (map fst m) k"

text \<open>\<open>setSwapCallback\<close>, behind \<open>onSwap(callback)\<close> of the returned object.\<close>

definition setSwapCallback :: "callback \<Rightarrow> page \<Rightarrow> page" where
  "setSwapCallback cb this = this\<lparr>swapCallback := Some cb\<rparr>"

text \<open>
  The handler of \<open>InitEvent\<close>. The source stores the reference to the map of the
  event; the model stores its entries, taking the engine not to change a map after it
  has delivered it.
\<close>

definition onInit :: "swap_event \<Rightarrow> page \<Rightarrow> page" where
  "onInit event this = this\<lparr>previousMap := Some (emap event)\<rparr>"

text \<open>
  The handler of \<open>SwapEvent\<close>: its guard, the optional call of the callback, and the
  handler. It returns the page it leaves behind. An exception of \<open>_applyOrder\<close> escapes
  the handler before the callback and before the map is stored; an exception of the
  callback escapes it after the DOM has changed and before the map is stored.
\<close>

datatype swap_exception = DomException dom_exception | CallbackException

definition suppressed :: "swap_event \<Rightarrow> page \<Rightarrow> bool" where
  "suppressed event this =
     (case previousMap this of None \<Rightarrow> False | Some prev \<Rightarrow> mapsAreEqual prev (emap event))"

definition invoke :: "callback option \<Rightarrow> swap_event \<Rightarrow> (callback \<times> swap_event) list" where
  "invoke cb event = (case cb of None \<Rightarrow> [] | Some c \<Rightarrow> [(c, event)])"

definition throwsOn :: "callback option \<Rightarrow> swap_event \<Rightarrow> bool" where
  "throwsOn cb event = (case cb of None \<Rightarrow> False | Some c \<Rightarrow> callbackThrows c event)"

definition onSwap :: "swap_event \<Rightarrow> page \<Rightarrow> (swap_exception \<times> page) + page" where
  "onSwap event this =
     (if suppressed event this then Inr this
      else
        (case applyOrder this (emap event) (kids this) of
           Inl (x, k) \<Rightarrow> Inl (DomException x, this\<lparr>kids := k\<rparr>)
         | Inr k \<Rightarrow>
             (if throwsOn (swapCallback this) event
              then Inl (CallbackException,
                        this\<lparr>kids := k, calls := calls this @ invoke (swapCallback this) event\<rparr>)
              else Inr (this\<lparr>kids := k,
                             calls := calls this @ invoke (swapCallback this) event,
                             previousMap := Some (emap event)\<rparr>))))"

section \<open>Notions for stating the properties\<close>

text \<open>The diagnostics of one slot, rule by rule, and a slot that breaks no rule.\<close>

definition slotDiagnostics :: "(elem \<Rightarrow> dataset) \<Rightarrow> node \<Rightarrow> diagnostic list" where
  "slotDiagnostics data slot =
     (if blank (data (ident slot) ''swapySlot'') then [MissingSlotId (ident slot)] else [])
     @ (if length (children slot) > 1 then [TooManyChildren (data (ident slot) ''swapySlot'')] else [])
     @ (if children slot \<noteq> [] \<and> blank (data (ident (hd (children slot))) ''swapyItem'')
        then [UnlabelledChild (data (ident slot) ''swapySlot'')] else [])"

definition slotOk :: "(elem \<Rightarrow> dataset) \<Rightarrow> node \<Rightarrow> bool" where
  "slotOk data slot \<longleftrightarrow>
     \<not> blank (data (ident slot) ''swapySlot'')
     \<and> length (children slot) \<le> 1
     \<and> (\<forall>child\<in>set (children slot). \<not> blank (data (ident child) ''swapyItem''))"

text \<open>
  The two DOM statements at the end of the loop body of \<open>_applyOrder\<close>: clear the slot,
  then append the item.
\<close>

definition place ::
  "elem \<Rightarrow> elem \<Rightarrow> (elem \<Rightarrow> elem list)
    \<Rightarrow> (dom_exception \<times> (elem \<Rightarrow> elem list)) + (elem \<Rightarrow> elem list)" where
  "place slot item k =
     (case appendChild slot item (clearInner slot k) of
        Inl x \<Rightarrow> Inl (x, clearInner slot k)
      | Inr k' \<Rightarrow> Inr k')"

text \<open>The reparentings of a list of slot and item elements, in order.\<close>

fun placeAll ::
  "(elem \<times> elem) list \<Rightarrow> (elem \<Rightarrow> elem list)
    \<Rightarrow> (dom_exception \<times> (elem \<Rightarrow> elem list)) + (elem \<Rightarrow> elem list)" where
  "placeAll [] k = Inr k"
| "placeAll ((slot, item) # rest) k =
     (case place slot item k of Inl x \<Rightarrow> Inl x | Inr k' \<Rightarrow> placeAll rest k')"

text \<open>
  The slot element and the item element that the loop body reparents for a slot name,
  \<open>None\<close> when one of its guards returns early.
\<close>

definition target :: "('a swapy_scheme) \<Rightarrow> assignment \<Rightarrow> string \<Rightarrow> (elem \<times> elem) option" where
  "target this m slotName =
     (if map_of m slotName = previousGet (previousMap this) slotName then None
      else
        (case map_of m slotName of
           Some (Some itemName) \<Rightarrow>
             (if itemName = [] then None
              else
                (case slotElMap this slotName of
                   None \<Rightarrow> None
                 | Some slot \<Rightarrow>
                     (case itemElMap this itemName of
                        None \<Rightarrow> None
                      | Some item \<Rightarrow> Some (slot, item))))
         | _ \<Rightarrow> None))"

text \<open>The reparentings of \<open>_applyOrder\<close> for a candidate map, in the order of its keys.\<close>

definition applied :: "('a swapy_scheme) \<Rightarrow> assignment \<Rightarrow> (elem \<times> elem) list" where
  "applied this m = List.map_filter (target this m) (map fst m)"

text \<open>
  The entry of the slot name has no item to place (\<open>null\<close>, the empty string, or no
  entry), or one of the two registry lookups fails.
\<close>

definition skipped :: "('a swapy_scheme) \<Rightarrow> assignment \<Rightarrow> string \<Rightarrow> bool" where
  "skipped this m slotName \<longleftrightarrow>
     (case map_of m slotName of
        Some (Some itemName) \<Rightarrow>
          itemName = [] \<or> slotElMap this slotName = None \<or> itemElMap this itemName = None
      | _ \<Rightarrow> True)"

text \<open>The children table a run leaves, whether it returned or threw.\<close>

definition domAfter ::
  "(dom_exception \<times> (elem \<Rightarrow> elem list)) + (elem \<Rightarrow> elem list) \<Rightarrow> (elem \<Rightarrow> elem list)" where
  "domAfter r = (case r of Inl (x, k) \<Rightarrow> k | Inr k \<Rightarrow> k)"

definition threw :: "'a + 'b \<Rightarrow> bool" where
  "threw r = (case r of Inl x \<Rightarrow> True | Inr y \<Rightarrow> False)"

text \<open>The page the swap handler leaves, whether it returned or threw.\<close>

definition pageAfter :: "(swap_exception \<times> page) + page \<Rightarrow> page" where
  "pageAfter r = (case r of Inl (x, this) \<Rightarrow> this | Inr this \<Rightarrow> this)"

text \<open>No item element of the list is an inclusive ancestor of a slot element of the list.\<close>

definition unnested :: "(elem \<times> elem) list \<Rightarrow> (elem \<Rightarrow> elem list) \<Rightarrow> bool" where
  "unnested ps k \<longleftrightarrow> (\<forall>i\<in>snd ` set ps. \<forall>s\<in>fst ` set ps. \<not> contains k i s)"

text \<open>The first element is not among the proper descendants of the second.\<close>

definition notBelow :: "node \<Rightarrow> node \<Rightarrow> bool" where
  "notBelow x y \<longleftrightarrow> ident x \<notin> ident ` set (descendants y)"

text \<open>The dataset keys that re-tagging writes.\<close>

definition markers :: "string set" where
  "markers = {''velView'', ''velLayoutId'', ''velLayoutPosition'', ''velIgnore''}"

section \<open>Example pages\<close>

text \<open>
  Root 0 with the slots \<open>left\<close> (element 1) and \<open>right\<close> (element 2), holding the items
  \<open>x\<close> (element 11) and \<open>y\<close> (element 12), as authored and as tagged with the defaults.
\<close>

definition demoRoot :: node where
  "demoRoot = Node 0 [Node 1 [Node 11 []], Node 2 [Node 12 []]]"

definition demoData :: "elem \<Rightarrow> dataset" where
  "demoData = (\<lambda>e. Map.empty)
     (1 := [''swapySlot'' \<mapsto> ''left''], 2 := [''swapySlot'' \<mapsto> ''right''],
      11 := [''swapyItem'' \<mapsto> ''x''], 12 := [''swapyItem'' \<mapsto> ''y''])"

definition demoTagged :: "elem \<Rightarrow> dataset" where
  "demoTagged = (\<lambda>e. Map.empty)
     (0 := [''velPluginKey'' \<mapsto> ''k1'', ''velPlugin'' \<mapsto> ''Swapy'', ''velView'' \<mapsto> ''root'',
            ''velDataConfigAnimation'' \<mapsto> ''dynamic'',
            ''velDataConfigContinuousMode'' \<mapsto> ''true''],
      1 := [''swapySlot'' \<mapsto> ''left'', ''velView'' \<mapsto> ''slot''],
      2 := [''swapySlot'' \<mapsto> ''right'', ''velView'' \<mapsto> ''slot''],
      11 := [''swapyItem'' \<mapsto> ''x'', ''velView'' \<mapsto> ''item'', ''velLayoutId'' \<mapsto> ''x''],
      12 := [''swapyItem'' \<mapsto> ''y'', ''velView'' \<mapsto> ''item'', ''velLayoutId'' \<mapsto> ''y''])"

text \<open>
  A markup that breaks three rules: slot 1 has an empty id and two children, the child
  of slot \<open>right\<close> has no item id.
\<close>

definition brokenRoot :: node where
  "brokenRoot = Node 0 [Node 1 [Node 11 [], Node 13 []], Node 2 [Node 12 []]]"

definition brokenData :: "elem \<Rightarrow> dataset" where
  "brokenData = (\<lambda>e. Map.empty)
     (1 := [''swapySlot'' \<mapsto> []], 2 := [''swapySlot'' \<mapsto> ''right''],
      11 := [''swapyItem'' \<mapsto> ''x''])"

text \<open>A slot \<open>a\<close> with two children: the first has an item id, the second has none.\<close>

definition surplusRoot :: node where
  "surplusRoot = Node 0 [Node 1 [Node 11 [], Node 13 []]]"

definition surplusData :: "elem \<Rightarrow> dataset" where
  "surplusData = (\<lambda>e. Map.empty)
     (1 := [''swapySlot'' \<mapsto> ''a''], 11 := [''swapyItem'' \<mapsto> ''x''])"

text \<open>
  A tagged page into whose slot \<open>right\<close> the host has inserted a new item \<open>y\<close> with a
  handle and a text element; the item registry is the one built before.
\<close>

definition lateRoot :: node where
  "lateRoot = Node 0 [Node 1 [Node 11 []], Node 2 [Node 12 [Node 21 [], Node 22 []]]]"

definition lateData :: "elem \<Rightarrow> dataset" where
  "lateData = (\<lambda>e. Map.empty)
     (0 := [''velView'' \<mapsto> ''root''],
      1 := [''swapySlot'' \<mapsto> ''left'', ''velView'' \<mapsto> ''slot''],
      2 := [''swapySlot'' \<mapsto> ''right'', ''velView'' \<mapsto> ''slot''],
      11 := [''swapyItem'' \<mapsto> ''x'', ''velView'' \<mapsto> ''item'', ''velLayoutId'' \<mapsto> ''x''],
      12 := [''swapyItem'' \<mapsto> ''y''],
      21 := [''swapyHandle'' \<mapsto> []],
      22 := [''swapyText'' \<mapsto> []])"

definition staleSwapy :: swapy where
  "staleSwapy =
     \<lparr>slotElMap = [''left'' \<mapsto> 1, ''right'' \<mapsto> 2], itemElMap = [''x'' \<mapsto> 11],
      swapCallback = None, previousMap = None\<rparr>"

text \<open>
  A new item \<open>n\<close> wrapped around an element that is already tagged as item \<open>t\<close> and
  also carries the handle attribute.
\<close>

definition nestedRoot :: node where
  "nestedRoot = Node 0 [Node 30 [Node 31 []]]"

definition nestedData :: "elem \<Rightarrow> dataset" where
  "nestedData = (\<lambda>e. Map.empty)
     (30 := [''swapyItem'' \<mapsto> ''n''],
      31 := [''swapyItem'' \<mapsto> ''t'', ''swapyHandle'' \<mapsto> [], ''velView'' \<mapsto> ''item'',
             ''velLayoutId'' \<mapsto> ''t''])"

text \<open>A callback that returns, and one that throws.\<close>

definition listener :: callback where
  "listener = Callback 7 (\<lambda>event. False)"

definition thrower :: callback where
  "thrower = Callback 8 (\<lambda>event. True)"

text \<open>
  The page of the first example after the init event \<open>{left: x, right: y}\<close>, with a
  callback registered; and the same page with a third item \<open>z\<close> (element 13) that is in
  no slot.
\<close>

definition twoSlots :: page where
  "twoSlots =
     \<lparr>slotElMap = [''left'' \<mapsto> 1, ''right'' \<mapsto> 2],
      itemElMap = [''x'' \<mapsto> 11, ''y'' \<mapsto> 12],
      swapCallback = Some listener,
      previousMap = Some [(''left'', Some ''x''), (''right'', Some ''y'')],
      kids = (\<lambda>e. [])(0 := [1, 2], 1 := [11], 2 := [12]),
      calls = []\<rparr>"

definition threeItems :: page where
  "threeItems =
     twoSlots\<lparr>itemElMap := [''x'' \<mapsto> 11, ''y'' \<mapsto> 12, ''z'' \<mapsto> 13],
              kids := (\<lambda>e. [])(0 := [1, 2, 13], 1 := [11], 2 := [12])\<rparr>"

text \<open>
  Slots inside items: slot \<open>a\<close> holds item \<open>x\<close>, which contains slot \<open>d\<close>, which holds
  item \<open>y\<close>, which contains the empty slot \<open>b\<close>; slot \<open>c\<close> is empty and outside.
\<close>

definition nestedSlots :: page where
  "nestedSlots =
     \<lparr>slotElMap = [''a'' \<mapsto> 1, ''b'' \<mapsto> 2, ''c'' \<mapsto> 3, ''d'' \<mapsto> 4],
      itemElMap = [''x'' \<mapsto> 11, ''y'' \<mapsto> 14],
      swapCallback = None,
      previousMap = Some [(''a'', Some ''x''), (''d'', Some ''y''), (''b'', None), (''c'', None)],
      kids = (\<lambda>e. [])(0 := [1, 3], 1 := [11], 11 := [4], 4 := [14], 14 := [2]),
      calls = []\<rparr>"

section \<open>Lemmas on validation\<close>

lemma validateSlot_eq:
  "validateSlot data slot acc =
     (fst acc \<and> slotDiagnostics data slot = [], snd acc @ slotDiagnostics data slot)"
  by (cases acc; cases "children slot")
    (auto simp: validateSlot_def slotDiagnostics_def Let_def)

lemma fold_validateSlot:
  "fold (validateSlot data) slots acc =
     (fst acc \<and> (\<forall>slot\<in>set slots. slotDiagnostics data slot = []),
      snd acc @ concat (map (slotDiagnostics data) slots))"
proof (induction slots arbitrary: acc)
  case Nil
  show ?case by simp
next
  case (Cons slot slots)
  have "fold (validateSlot data) (slot # slots) acc
      = fold (validateSlot data) slots (validateSlot data slot acc)"
    by simp
  also have "\<dots> = (fst (validateSlot data slot acc) \<and> (\<forall>slot\<in>set slots. slotDiagnostics data slot = []),
      snd (validateSlot data slot acc) @ concat (map (slotDiagnostics data) slots))"
    by (rule Cons.IH)
  finally show ?case
    by (simp add: validateSlot_eq [of data slot acc] conj_assoc)
qed

lemma slotOk_iff: "slotOk data slot \<longleftrightarrow> slotDiagnostics data slot = []"
  by (cases "children slot") (auto simp: slotOk_def slotDiagnostics_def)

lemma validate_eq:
  "validate data root =
     (querySelectorAll data ''swapySlot'' root \<noteq> []
        \<and> (\<forall>slot\<in>set (querySelectorAll data ''swapySlot'' root). slotOk data slot),
      (if querySelectorAll data ''swapySlot'' root = [] then [NoSlots (ident root)] else [])
        @ concat (map (slotDiagnostics data) (querySelectorAll data ''swapySlot'' root)))"
  by (simp add: validate_def Let_def fold_validateSlot slotOk_iff)

lemma validate_verdict: "fst (validate data root) \<longleftrightarrow> snd (validate data root) = []"
  by (auto simp: validate_eq slotOk_iff)

lemma createSwapy_invalid:
  "\<not> fst (validate data rootEl) \<Longrightarrow>
     createSwapy pluginKey (Some rootEl) userConfig data =
       (Inl InvalidStructure, data, snd (validate data rootEl))"
  by (cases "validate data rootEl") (simp add: createSwapy_def Let_def)

lemma createSwapy_valid:
  "fst (validate data rootEl) \<Longrightarrow>
     createSwapy pluginKey (Some rootEl) userConfig data =
       (Inr (newSwapy (addVeloxiDataAttributes pluginKey rootEl (mergeConfig DEFAULT_CONFIG userConfig) data) rootEl),
        addVeloxiDataAttributes pluginKey rootEl (mergeConfig DEFAULT_CONFIG userConfig) data,
        snd (validate data rootEl))"
  by (cases "validate data rootEl") (simp add: createSwapy_def Let_def)

section \<open>Lemmas on tagging\<close>

lemma find_in: "List.find P xs = Some x \<Longrightarrow> x \<in> set xs \<and> P x"
  by (induction xs) (auto split: if_splits)

lemma querySelector_in:
  "querySelector data attr n = Some h \<Longrightarrow> h \<in> set (descendants n)"
  by (auto simp: querySelector_def dest: find_in)

lemma querySelectorAll_in: "set (querySelectorAll data attr n) \<subseteq> set (descendants n)"
  by (auto simp: querySelectorAll_def)

lemma querySelectorAll_cong:
  "(\<And>e. d e attr = d' e attr) \<Longrightarrow> querySelectorAll d attr n = querySelectorAll d' attr n"
  by (simp add: querySelectorAll_def)

lemma querySelector_cong:
  "(\<And>e. d e attr = d' e attr) \<Longrightarrow> querySelector d attr n = querySelector d' attr n"
  by (simp add: querySelector_def)

lemma setData_apply:
  "setData a key v data e key' = (if e = a \<and> key' = key then Some v else data e key')"
  by (simp add: setData_def)

lemma markAll_apply:
  "markAll key els data e key' =
     (if key' = key \<and> e \<in> ident ` set els then Some [] else data e key')"
  unfolding markAll_def
  by (induction els arbitrary: data) (auto simp: setData_apply)

lemma querySelector_setData:
  "attr \<noteq> key \<Longrightarrow> querySelector (setData a key v d) attr n = querySelector d attr n"
  by (rule querySelector_cong) (simp add: setData_apply)

lemma querySelectorAll_markAll:
  "attr \<noteq> key \<Longrightarrow> querySelectorAll (markAll key els d) attr n = querySelectorAll d attr n"
  by (rule querySelectorAll_cong) (simp add: markAll_apply)

lemma markItem_apply:
  "markItem item data e key =
     (if key = ''velView'' \<and> (\<exists>h. querySelector data ''swapyHandle'' item = Some h \<and> ident h = e)
      then Some ''handle''
      else if e = ident item \<and> key = ''velView'' then Some ''item''
      else if e = ident item \<and> key = ''velLayoutId''
        then Some (jsString (data (ident item) ''swapyItem''))
      else data e key)"
  by (cases "querySelector data ''swapyHandle'' item")
    (auto simp: markItem_def Let_def querySelector_setData setData_apply)

lemma querySelectorAll_markItem:
  "attr \<noteq> ''velView'' \<Longrightarrow> attr \<noteq> ''velLayoutId'' \<Longrightarrow>
     querySelectorAll (markItem item d) attr n = querySelectorAll d attr n"
  by (rule querySelectorAll_cong) (simp add: markItem_apply)

lemma resyncItem_apply:
  "resyncItem item data e key =
     (if key = ''velIgnore'' \<and> e \<in> ident ` set (querySelectorAll data ''swapyExclude'' item)
      then Some []
      else if key = ''velLayoutPosition''
          \<and> e \<in> ident ` set (querySelectorAll data ''swapyText'' item)
        then Some []
      else markItem item data e key)"
  by (simp add: resyncItem_def Let_def querySelectorAll_markAll querySelectorAll_markItem
      markAll_apply)

lemma resyncItem_markup:
  "key \<notin> markers \<Longrightarrow> resyncItem item data e key = data e key"
  by (auto simp: resyncItem_apply markItem_apply markers_def)

lemma resyncItem_query [simp]:
  "attr \<notin> markers \<Longrightarrow>
     querySelectorAll (resyncItem item data) attr n = querySelectorAll data attr n"
  by (rule querySelectorAll_cong) (simp add: resyncItem_markup)

lemma resyncItem_query1 [simp]:
  "attr \<notin> markers \<Longrightarrow>
     querySelector (resyncItem item data) attr n = querySelector data attr n"
  by (rule querySelector_cong) (simp add: resyncItem_markup)

lemma markup_keys [simp]:
  "''swapyItem'' \<notin> markers" "''swapyHandle'' \<notin> markers" "''swapyText'' \<notin> markers"
  "''swapyExclude'' \<notin> markers" "''swapySlot'' \<notin> markers"
  by (simp_all add: markers_def)

lemma fold_resync_markup:
  "key \<notin> markers \<Longrightarrow> fold resyncItem items data e key = data e key"
  by (induction items arbitrary: data) (simp_all add: resyncItem_markup)

lemma fold_resync_layoutId:
  "fold resyncItem items data e ''velLayoutId'' =
     (if e \<in> ident ` set items then Some (jsString (data e ''swapyItem''))
      else data e ''velLayoutId'')"
proof (induction items arbitrary: data)
  case Nil
  show ?case by simp
next
  case (Cons item items)
  show ?case
    by (simp add: Cons.IH resyncItem_markup) (auto simp: resyncItem_apply markItem_apply)
qed

lemma fold_resync_text:
  "fold resyncItem items data e ''velLayoutPosition'' =
     (if \<exists>item\<in>set items. e \<in> ident ` set (querySelectorAll data ''swapyText'' item)
      then Some [] else data e ''velLayoutPosition'')"
proof (induction items arbitrary: data)
  case Nil
  show ?case by simp
next
  case (Cons item items)
  show ?case
    by (simp add: Cons.IH) (auto simp: resyncItem_apply markItem_apply)
qed

lemma fold_resync_exclude:
  "fold resyncItem items data e ''velIgnore'' =
     (if \<exists>item\<in>set items. e \<in> ident ` set (querySelectorAll data ''swapyExclude'' item)
      then Some [] else data e ''velIgnore'')"
proof (induction items arbitrary: data)
  case Nil
  show ?case by simp
next
  case (Cons item items)
  show ?case
    by (simp add: Cons.IH) (auto simp: resyncItem_apply markItem_apply)
qed

lemma fold_resync_view_other:
  "e \<notin> ident ` set items \<Longrightarrow>
     fold resyncItem items data e ''velView'' =
       (if \<exists>item\<in>set items. \<exists>h. querySelector data ''swapyHandle'' item = Some h \<and> ident h = e
        then Some ''handle'' else data e ''velView'')"
proof (induction items arbitrary: data)
  case Nil
  show ?case by simp
next
  case (Cons item items)
  then show ?case
    by (simp add: Cons.IH) (auto simp: resyncItem_apply markItem_apply)
qed

text \<open>Document order lists an element before its descendants.\<close>

lemma descendants_trans:
  "n \<in> set (descendants t) \<Longrightarrow> set (descendants n) \<subseteq> set (descendants t)"
proof (induction t)
  case (Node e cs)
  from Node.prems obtain c where c: "c \<in> set cs" and n: "n = c \<or> n \<in> set (descendants c)"
    by auto
  from n have "set (descendants n) \<subseteq> set (descendants c)"
    using Node.IH [OF c] by auto
  with c show ?case by auto
qed

lemma distinct_concat_member:
  "distinct (concat xss) \<Longrightarrow> xs \<in> set xss \<Longrightarrow> distinct xs"
  by (induction xss) auto

lemma distinct_child:
  assumes "distinct (map ident (descendants (Node e cs)))" and "c \<in> set cs"
  shows "distinct (map ident (c # descendants c))"
proof -
  from assms(1) have "distinct (concat (map (\<lambda>c. map ident (c # descendants c)) cs))"
    by (simp add: map_concat comp_def)
  moreover from assms(2) have "map ident (c # descendants c) \<in> set (map (\<lambda>c. map ident (c # descendants c)) cs)"
    by force
  ultimately show ?thesis by (rule distinct_concat_member)
qed

lemma ident_not_below:
  "distinct (map ident (descendants t)) \<Longrightarrow> n \<in> set (descendants t) \<Longrightarrow>
     ident n \<notin> ident ` set (descendants n)"
proof (induction t)
  case (Node e cs)
  from Node.prems(2) obtain c where c: "c \<in> set cs" and n: "n = c \<or> n \<in> set (descendants c)"
    by auto
  from distinct_child [OF Node.prems(1) c]
  have top: "ident c \<notin> ident ` set (descendants c)" and rest: "distinct (map ident (descendants c))"
    by simp_all
  from n show ?case
  proof
    assume "n = c"
    with top show ?thesis by simp
  next
    assume "n \<in> set (descendants c)"
    with Node.IH [OF c rest] show ?thesis by simp
  qed
qed

lemma blocks_ordered:
  assumes "\<And>c. c \<in> set cs \<Longrightarrow> distinct (map ident (descendants c)) \<Longrightarrow>
      sorted_wrt notBelow (descendants c)"
    and "distinct (map ident (concat (map (\<lambda>c. c # descendants c) cs)))"
  shows "sorted_wrt notBelow (concat (map (\<lambda>c. c # descendants c) cs))"
  using assms
proof (induction cs)
  case Nil
  show ?case by simp
next
  case (Cons c cs)
  let ?rest = "concat (map (\<lambda>c. c # descendants c) cs)"
  from Cons.prems(2) have dc: "distinct (map ident (c # descendants c))"
    and dr: "distinct (map ident ?rest)"
    and disj: "ident ` set (c # descendants c) \<inter> ident ` set ?rest = {}"
    by auto
  have inner: "sorted_wrt notBelow (descendants c)"
    using Cons.prems(1) [of c] dc by simp
  have head: "\<forall>y\<in>set (descendants c). notBelow c y"
  proof
    fix y assume "y \<in> set (descendants c)"
    then have "set (descendants y) \<subseteq> set (descendants c)" by (rule descendants_trans)
    with dc show "notBelow c y" by (auto simp: notBelow_def)
  qed
  have tail: "sorted_wrt notBelow ?rest"
    using Cons.IH Cons.prems(1) dr by simp
  have cross: "\<forall>x\<in>set (c # descendants c). \<forall>y\<in>set ?rest. notBelow x y"
  proof (intro ballI)
    fix x y assume x: "x \<in> set (c # descendants c)" and y: "y \<in> set ?rest"
    from y obtain c' where c': "c' \<in> set cs" and "y = c' \<or> y \<in> set (descendants c')" by auto
    then have "set (descendants y) \<subseteq> set (descendants c')"
      using descendants_trans [of y c'] by auto
    with c' have "set (descendants y) \<subseteq> set ?rest" by auto
    with disj x show "notBelow x y" unfolding notBelow_def by blast
  qed
  from inner head tail cross show ?case
    by (auto simp: sorted_wrt_append)
qed

lemma descendants_ordered:
  "distinct (map ident (descendants t)) \<Longrightarrow> sorted_wrt notBelow (descendants t)"
proof (induction t)
  case (Node e cs)
  have "sorted_wrt notBelow (concat (map (\<lambda>c. c # descendants c) cs))"
  proof (rule blocks_ordered)
    fix c assume "c \<in> set cs" and "distinct (map ident (descendants c))"
    then show "sorted_wrt notBelow (descendants c)" by (rule Node.IH)
  next
    from Node.prems show "distinct (map ident (concat (map (\<lambda>c. c # descendants c) cs)))" by simp
  qed
  then show ?case by simp
qed

lemma fold_resync_view_item:
  assumes "sorted_wrt notBelow items" and "distinct (map ident items)"
    and "\<forall>x\<in>set items. notBelow x x" and "n \<in> set items"
  shows "fold resyncItem items data (ident n) ''velView'' = Some ''item''"
  using assms
proof (induction items arbitrary: data)
  case Nil
  then show ?case by simp
next
  case (Cons x items)
  show ?case
  proof (cases "n \<in> set items")
    case True
    with Cons show ?thesis by simp
  next
    case False
    with Cons.prems(4) have nx: "n = x" by simp
    from Cons.prems(2) have out: "ident x \<notin> ident ` set items" by auto
    have nohandle: "\<not> (\<exists>h. querySelector data ''swapyHandle'' m = Some h \<and> ident h = ident x)"
      if "notBelow x m" for m
      using that by (metis notBelow_def imageI querySelector_in)
    from Cons.prems(1) have later: "\<forall>m\<in>set items. notBelow x m" by simp
    from Cons.prems(3) have self: "notBelow x x" by simp
    have "fold resyncItem items (resyncItem x data) (ident x) ''velView''
        = resyncItem x data (ident x) ''velView''"
      using later nohandle by (auto simp: fold_resync_view_other [OF out])
    also have "\<dots> = Some ''item''"
      using nohandle [OF self] by (simp add: resyncItem_apply markItem_apply)
    finally show ?thesis using nx by simp
  qed
qed

lemma resyncItem_frame:
  "e \<notin> ident ` set (item # descendants item) \<Longrightarrow> resyncItem item data e = data e"
proof (rule ext)
  fix key assume out: "e \<notin> ident ` set (item # descendants item)"
  have "\<not> (\<exists>h. querySelector data ''swapyHandle'' item = Some h \<and> ident h = e)"
    using out by (auto dest!: querySelector_in)
  moreover have "e \<notin> ident ` set (querySelectorAll data attr item)" for attr
    using out querySelectorAll_in [of data attr item] by auto
  ultimately show "resyncItem item data e key = data e key"
    using out by (auto simp: resyncItem_apply markItem_apply)
qed

lemma fold_resync_frame:
  "e \<notin> (\<Union>item\<in>set items. ident ` set (item # descendants item)) \<Longrightarrow>
     fold resyncItem items data e = data e"
  by (induction items arbitrary: data) (simp_all add: resyncItem_frame)

lemma untaggedItems_in: "set (untaggedItems data t) \<subseteq> set (descendants t)"
  by (auto simp: untaggedItems_def)

lemma untaggedItems_ordered:
  assumes "distinct (map ident (descendants t))"
  shows "sorted_wrt notBelow (untaggedItems data t)"
    and "distinct (map ident (untaggedItems data t))"
    and "\<forall>x\<in>set (untaggedItems data t). notBelow x x"
proof -
  from assms show "sorted_wrt notBelow (untaggedItems data t)"
    unfolding untaggedItems_def by (intro sorted_wrt_filter descendants_ordered)
  from assms show "distinct (map ident (untaggedItems data t))"
    unfolding untaggedItems_def by (rule distinct_map_filter)
  from assms show "\<forall>x\<in>set (untaggedItems data t). notBelow x x"
    using untaggedItems_in [of data t] by (auto simp: notBelow_def dest: ident_not_below)
qed

lemma onMutations_other:
  "\<not> list_ex (\<lambda>m. m = ChildList) mutations \<Longrightarrow>
     onMutations rootEl mutations (data, this) = (data, this)"
  by (simp add: onMutations_def)

lemma onMutations_childList:
  "list_ex (\<lambda>m. m = ChildList) mutations \<Longrightarrow>
     onMutations rootEl mutations (data, this) =
       (fold resyncItem (untaggedItems data rootEl) data,
        if untaggedItems data rootEl \<noteq> []
        then this\<lparr>slotElMap := createSlotElMap (fold resyncItem (untaggedItems data rootEl) data) rootEl,
                  itemElMap := createItemElMap (fold resyncItem (untaggedItems data rootEl) data) rootEl\<rparr>
        else this)"
  by (simp add: onMutations_def resyncItems_def Let_def)

section \<open>Lemmas on reparenting\<close>

lemma applySlot_target:
  "applySlot this m n k = (case target this m n of None \<Rightarrow> Inr k | Some (s, i) \<Rightarrow> place s i k)"
  by (simp add: applySlot_def target_def place_def split: option.splits)

lemma forEachSlot_placeAll:
  "forEachSlot this m names k = placeAll (List.map_filter (target this m) names) k"
proof (induction names arbitrary: k)
  case Nil
  then show ?case by (simp add: List.map_filter_simps)
next
  case (Cons n names)
  show ?case
  proof (cases "target this m n")
    case None
    then show ?thesis using Cons by (simp add: applySlot_target List.map_filter_simps)
  next
    case (Some si)
    obtain s i where "si = (s, i)" by (cases si)
    with Some show ?thesis using Cons
      by (simp add: applySlot_target List.map_filter_simps split: sum.splits)
  qed
qed

lemma place_Inr:
  "place s i k = Inr k' \<Longrightarrow> k' = (\<lambda>p. if p = s then [i] else removeAll i (k p))"
  by (auto simp: place_def appendChild_def clearInner_def split: if_splits sum.splits)

lemma place_Inl:
  "place s i k = Inl (x, k') \<Longrightarrow> k' = k(s := [])"
  by (auto simp: place_def appendChild_def clearInner_def split: if_splits sum.splits)

lemma place_receives: "place slot item k = Inr k' \<Longrightarrow> k' slot = [item]"
  by (drule place_Inr) simp

lemma filter_removeAll:
  "filter P (removeAll i xs) = filter (\<lambda>c. c \<noteq> i \<and> P c) xs"
  by (induction xs) auto

lemma placeAll_closed:
  assumes "placeAll ps k = Inr k'" and "distinct (map fst ps)" and "distinct (map snd ps)"
  shows "k' p = (case map_of ps p of Some i \<Rightarrow> [i]
                 | None \<Rightarrow> filter (\<lambda>c. c \<notin> snd ` set ps) (k p))"
  using assms
proof (induction ps arbitrary: k)
  case Nil
  then show ?case by simp
next
  case (Cons si ps)
  obtain s i where si: "si = (s, i)" by (cases si)
  from Cons.prems(1) si obtain k1 where k1: "place s i k = Inr k1" and rest: "placeAll ps k1 = Inr k'"
    by (auto split: sum.splits)
  from Cons.prems si have d: "distinct (map fst ps)" "distinct (map snd ps)"
    and s: "s \<notin> fst ` set ps" and i: "i \<notin> snd ` set ps" by auto
  have ih: "k' p = (case map_of ps p of Some i \<Rightarrow> [i]
                 | None \<Rightarrow> filter (\<lambda>c. c \<notin> snd ` set ps) (k1 p))"
    by (rule Cons.IH [OF rest d])
  have k1p: "k1 p = (if p = s then [i] else removeAll i (k p))"
    using place_Inr [OF k1] by simp
  show ?case
  proof (cases "p = s")
    case True
    with s have "map_of ps p = None" by (simp add: map_of_eq_None_iff)
    with ih k1p True i si show ?thesis by simp
  next
    case False
    show ?thesis
    proof (cases "map_of ps p")
      case None
      have "filter (\<lambda>c. c \<notin> snd ` set ps) (removeAll i (k p)) =
            filter (\<lambda>c. c \<notin> snd ` set (si # ps)) (k p)"
        using si by (simp add: filter_removeAll)
      with ih k1p False None si show ?thesis by simp
    next
      case (Some j)
      with ih False si show ?thesis by simp
    qed
  qed
qed

lemma contains_unfold:
  "contains k a e \<longleftrightarrow> a = e \<or> (\<exists>c\<in>set (k a). contains k c e)"
  by (auto intro: contains.intros elim: contains.cases)

lemma contains_leaf: "k a = [] \<Longrightarrow> contains k a e \<longleftrightarrow> a = e"
  by (subst contains_unfold) simp

lemma contains_step:
  "k a = cs \<Longrightarrow> contains k a e \<longleftrightarrow> a = e \<or> (\<exists>c\<in>set cs. contains k c e)"
  by (subst contains_unfold) simp

lemma contains_mono:
  assumes "contains k1 a e" and "\<And>p. set (k1 p) \<subseteq> set (k p)"
  shows "contains k a e"
  using assms(1)
proof (induction rule: contains.induct)
  case (self e)
  show ?case by (rule contains.self)
next
  case (below c a e)
  from below.hyps(1) assms(2) have "c \<in> set (k a)" by blast
  then show ?case using below.IH by (rule contains.below)
qed

lemma contains_after_place:
  assumes "contains (\<lambda>p. if p = s then [i] else removeAll i (k p)) a e"
  shows "contains k a e \<or> contains k a s"
  using assms
proof (induction rule: contains.induct)
  case (self e)
  show ?case by (simp add: contains.self)
next
  case (below c a e)
  show ?case
  proof (cases "a = s")
    case True
    then show ?thesis by (simp add: contains.self)
  next
    case False
    with below.hyps(1) have "c \<in> set (k a)" by simp
    with below.IH show ?thesis by (auto intro: contains.below)
  qed
qed

lemma place_unnested:
  assumes "unnested ps k" and "(s, i) \<in> set ps"
  shows "\<exists>k'. place s i k = Inr k' \<and> unnested ps k'"
proof -
  have sub: "\<And>p. set (clearInner s k p) \<subseteq> set (k p)"
    by (simp add: clearInner_def)
  from assms have "\<not> contains k i s"
    by (force simp: unnested_def)
  with contains_mono [of "clearInner s k" i s k] sub have ok: "\<not> contains (clearInner s k) i s"
    by blast
  then obtain k' where k': "place s i k = Inr k'"
    by (simp add: place_def appendChild_def)
  have "unnested ps k'"
    unfolding unnested_def
  proof (intro ballI notI)
    fix j t assume j: "j \<in> snd ` set ps" and t: "t \<in> fst ` set ps" and c: "contains k' j t"
    from c place_Inr [OF k'] have "contains (\<lambda>p. if p = s then [i] else removeAll i (k p)) j t"
      by simp
    then have "contains k j t \<or> contains k j s" by (rule contains_after_place)
    moreover from assms(2) have "s \<in> fst ` set ps" by force
    ultimately show False using assms(1) j t by (auto simp: unnested_def)
  qed
  with k' show ?thesis by blast
qed

lemma placeAll_unnested:
  assumes "unnested ps k" and "set qs \<subseteq> set ps"
  shows "\<exists>k'. placeAll qs k = Inr k'"
  using assms
proof (induction qs arbitrary: k)
  case Nil
  then show ?case by simp
next
  case (Cons si qs)
  obtain s i where si: "si = (s, i)" by (cases si)
  with Cons.prems have "(s, i) \<in> set ps" by simp
  from place_unnested [OF Cons.prems(1) this]
  obtain k1 where k1: "place s i k = Inr k1" and u: "unnested ps k1" by blast
  from Cons.IH [OF u] Cons.prems(2) obtain k' where "placeAll qs k1 = Inr k'" by auto
  with k1 si show ?case by simp
qed

lemma placeAll_frame:
  assumes "p \<notin> fst ` set ps" and "\<forall>c\<in>set (k p). c \<notin> snd ` set ps"
  shows "domAfter (placeAll ps k) p = k p"
  using assms
proof (induction ps arbitrary: k)
  case Nil
  then show ?case by (simp add: domAfter_def)
next
  case (Cons si ps)
  obtain s i where si: "si = (s, i)" by (cases si)
  from Cons.prems si have ps: "p \<noteq> s" "p \<notin> fst ` set ps" and ip: "i \<notin> set (k p)"
    and rest: "\<forall>c\<in>set (k p). c \<notin> snd ` set ps" by auto
  show ?case
  proof (cases "place s i k")
    case (Inl xk)
    obtain x k1 where "xk = (x, k1)" by (cases xk)
    with Inl place_Inl have "k1 = k(s := [])" by blast
    with Inl \<open>xk = (x, k1)\<close> si ps show ?thesis by (simp add: domAfter_def)
  next
    case (Inr k1)
    from place_Inr [OF Inr] ps ip have same: "k1 p = k p" by simp
    with rest have "\<forall>c\<in>set (k1 p). c \<notin> snd ` set ps" by simp
    from Cons.IH [of k1] ps(2) this Inr si same show ?thesis by simp
  qed
qed

lemma placeAll_other:
  assumes "placeAll ps k = Inr k'" and "p \<notin> fst ` set ps"
  shows "k' p = filter (\<lambda>c. c \<notin> snd ` set ps) (k p)"
  using assms
proof (induction ps arbitrary: k)
  case Nil
  then show ?case by simp
next
  case (Cons si ps)
  obtain s i where si: "si = (s, i)" by (cases si)
  from Cons.prems(1) si obtain k1 where k1: "place s i k = Inr k1" and rest: "placeAll ps k1 = Inr k'"
    by (auto split: sum.splits)
  from Cons.prems(2) si have ps: "p \<noteq> s" "p \<notin> fst ` set ps" by auto
  from place_Inr [OF k1] ps have "k1 p = removeAll i (k p)" by simp
  with Cons.IH [OF rest ps(2)] si show ?case
    by (simp add: filter_removeAll)
qed

lemma placeAll_receives:
  assumes "placeAll ps k = Inr k'" and "distinct (map fst ps)" and "distinct (map snd ps)"
    and "(s, i) \<in> set ps"
  shows "k' s = [i]"
proof -
  from assms(2,4) have "map_of ps s = Some i" by simp
  with placeAll_closed [OF assms(1-3), of s] show ?thesis by simp
qed

lemma placeAll_loses:
  assumes "p \<notin> fst ` set ps"
  shows "\<exists>E. E \<subseteq> snd ` set ps \<and> domAfter (placeAll ps k) p = filter (\<lambda>c. c \<notin> E) (k p)"
  using assms
proof (induction ps arbitrary: k)
  case Nil
  have "domAfter (placeAll [] k) p = filter (\<lambda>c. c \<notin> {}) (k p)"
    by (simp add: domAfter_def)
  then show ?case by blast
next
  case (Cons si ps)
  obtain s i where si: "si = (s, i)" by (cases si)
  from Cons.prems si have ps: "p \<noteq> s" "p \<notin> fst ` set ps" by auto
  show ?case
  proof (cases "place s i k")
    case (Inl xk)
    obtain x k1 where xk: "xk = (x, k1)" by (cases xk)
    with Inl place_Inl have "k1 = k(s := [])" by blast
    with Inl xk si ps have "domAfter (placeAll (si # ps) k) p = filter (\<lambda>c. c \<notin> {}) (k p)"
      by (simp add: domAfter_def)
    then show ?thesis by blast
  next
    case (Inr k1)
    from place_Inr [OF Inr] ps have k1: "k1 p = removeAll i (k p)" by simp
    from Cons.IH [OF ps(2), of k1] obtain E where E: "E \<subseteq> snd ` set ps"
      and after: "domAfter (placeAll ps k1) p = filter (\<lambda>c. c \<notin> E) (k1 p)" by blast
    from after k1 Inr si
    have "domAfter (placeAll (si # ps) k) p = filter (\<lambda>c. c \<notin> insert i E) (k p)"
      by (simp add: filter_removeAll)
    moreover from E si have "insert i E \<subseteq> snd ` set (si # ps)" by auto
    ultimately show ?thesis by blast
  qed
qed

lemma map_filter_mset:
  "mset xs = mset ys \<Longrightarrow> mset (List.map_filter f xs) = mset (List.map_filter f ys)"
  by (simp add: List.map_filter_def)

lemma placeAll_permuted:
  assumes "mset qs = mset ps" and "distinct (map fst ps)" and "distinct (map snd ps)"
    and "placeAll ps k = Inr k1" and "placeAll qs k = Inr k2"
  shows "k1 = k2"
proof
  fix p
  from assms(1) have m1: "mset (map fst qs) = mset (map fst ps)" and m2: "mset (map snd qs) = mset (map snd ps)"
    by (metis mset_map)+
  from m1 assms(2) have d1: "distinct (map fst qs)" by (metis mset_eq_imp_distinct_iff)
  from m2 assms(3) have d2: "distinct (map snd qs)" by (metis mset_eq_imp_distinct_iff)
  from assms(1) have st: "set qs = set ps" by (metis mset_eq_setD)
  with d1 assms(2) have mo: "map_of qs = map_of ps" by (simp add: map_of_inject_set)
  show "k1 p = k2 p"
    using placeAll_closed [OF assms(4) assms(2) assms(3), of p]
      placeAll_closed [OF assms(5) d1 d2, of p] st mo by (simp split: option.splits)
qed

lemma applyOrder_placeAll: "applyOrder this m k = placeAll (applied this m) k"
  by (simp add: applyOrder_def applied_def forEachSlot_placeAll)

lemma target_cong: "map_of m' = map_of m \<Longrightarrow> target this m' = target this m"
  by (rule ext) (simp add: target_def)

lemma skipped_target: "skipped this m n \<Longrightarrow> target this m n = None"
  by (auto simp: skipped_def target_def split: option.splits)

lemma target_slot: "target this m n = Some (s, i) \<Longrightarrow> slotElMap this n = Some s"
  by (auto simp: target_def split: option.splits if_splits)

lemma set_map_filter: "set (List.map_filter f xs) = {y. \<exists>x\<in>set xs. f x = Some y}"
  by (induction xs) (auto simp: List.map_filter_simps split: option.splits)

lemma in_applied:
  "(s, i) \<in> set (applied this m) \<longleftrightarrow> (\<exists>n\<in>set (map fst m). target this m n = Some (s, i))"
  by (simp add: applied_def set_map_filter)

lemma unchanged_not_target:
  assumes "map_of m n = previousGet (previousMap this) n"
    and "slotElMap this n = Some p"
    and "inj_on (slotElMap this) (dom (slotElMap this))"
  shows "p \<notin> fst ` set (applied this m)"
proof
  assume "p \<in> fst ` set (applied this m)"
  then obtain i where "(p, i) \<in> set (applied this m)" by force
  then obtain n' where t: "target this m n' = Some (p, i)"
    by (auto simp: in_applied)
  then have "slotElMap this n' = Some p" by (rule target_slot)
  with assms(2,3) have "n' = n" by (metis domI inj_onD)
  with t assms(1) show False by (simp add: target_def)
qed

lemma skipped_not_target:
  assumes "target this m n = None"
    and "slotElMap this n = Some p"
    and "inj_on (slotElMap this) (dom (slotElMap this))"
  shows "p \<notin> fst ` set (applied this m)"
proof
  assume "p \<in> fst ` set (applied this m)"
  then obtain i where "(p, i) \<in> set (applied this m)" by force
  then obtain n' where t: "target this m n' = Some (p, i)"
    by (auto simp: in_applied)
  then have "slotElMap this n' = Some p" by (rule target_slot)
  with assms(2,3) have "n' = n" by (metis domI inj_onD)
  with t assms(1) show False by simp
qed

lemma applySlot_skipped: "skipped this m n \<Longrightarrow> applySlot this m n k = Inr k"
  by (simp add: applySlot_target skipped_target)

lemma forEachSlot_drop:
  "applySlot this m n = Inr \<Longrightarrow> forEachSlot this m names k = forEachSlot this m (removeAll n names) k"
  by (induction names arbitrary: k) (auto split: sum.splits)

lemma forEachSlot_all_skipped:
  "\<forall>n\<in>set names. skipped this m n \<Longrightarrow> forEachSlot this m names k = Inr k"
  by (induction names) (simp_all add: applySlot_skipped)

lemma suppressed_same:
  "previousMap this = Some (emap event) \<Longrightarrow> suppressed event this"
  by (simp add: suppressed_def mapsAreEqual_def)

section \<open>The examples, evaluated\<close>

lemmas query_simps = querySelectorAll_def querySelector_def untaggedItems_def

lemmas tag_simps = onMutations_def resyncItems_def resyncItem_def markItem_def markAll_def
  setData_def jsString_def createSlotElMap_def createItemElMap_def register_def Let_def

lemmas run_simps = applyOrder_def applySlot_def previousGet_def appendChild_def clearInner_def
  contains_step domAfter_def threw_def

lemma listener_returns: "\<not> throwsOn (Some listener) event"
  by (simp add: throwsOn_def listener_def)

lemma thrower_throws: "throwsOn (Some thrower) event"
  by (simp add: throwsOn_def thrower_def)

lemma demo_descendants:
  "descendants demoRoot = [Node 1 [Node 11 []], Node 11 [], Node 2 [Node 12 []], Node 12 []]"
  by (simp add: demoRoot_def)

lemma demo_valid: "validate demoData demoRoot = (True, [])"
  unfolding validate_eq querySelectorAll_def demo_descendants
  by (simp add: slotDiagnostics_def slotOk_def blank_def demoData_def)

lemma broken_invalid:
  "validate brokenData brokenRoot =
     (False, [MissingSlotId 1, TooManyChildren (Some []), UnlabelledChild (Some ''right'')])"
  by (simp add: validate_eq query_simps slotDiagnostics_def slotOk_def blank_def brokenData_def
      brokenRoot_def)

lemma demo_tagged:
  "addVeloxiDataAttributes ''k1'' demoRoot DEFAULT_CONFIG demoData = demoTagged"
  unfolding addVeloxiDataAttributes_def Let_def querySelectorAll_def demo_descendants
  by (simp add: markItem_def markAll_def setData_def jsString_def querySelector_def
      DEFAULT_CONFIG_def demoData_def demoRoot_def demoTagged_def fun_eq_iff)

text \<open>
  A user configuration whose keys are present with the value \<open>undefined\<close> overrides
  the defaults: the animation is stamped as \<open>undefined\<close> and there is no
  continuous-mode marker.
\<close>

lemma undefined_overrides:
  "mergeConfig DEFAULT_CONFIG \<lparr>userAnimation = Undefined, userContinuousMode = Undefined\<rparr>
     = \<lparr>animation = None, continuousMode = None\<rparr>
   \<and> addVeloxiDataAttributes ''k1'' demoRoot \<lparr>animation = None, continuousMode = None\<rparr> demoData
        0 ''velDataConfigAnimation'' = Some ''undefined''
   \<and> addVeloxiDataAttributes ''k1'' demoRoot \<lparr>animation = None, continuousMode = None\<rparr> demoData
        0 ''velDataConfigContinuousMode'' = None"
  unfolding addVeloxiDataAttributes_def Let_def querySelectorAll_def demo_descendants
  by (simp add: mergeConfig_def markItem_def markAll_def setData_def jsString_def querySelector_def
      demoData_def demoRoot_def)

lemma demo_registries:
  "createSlotElMap demoTagged demoRoot = [''left'' \<mapsto> 1, ''right'' \<mapsto> 2]"
  "createItemElMap demoTagged demoRoot = [''x'' \<mapsto> 11, ''y'' \<mapsto> 12]"
  unfolding createSlotElMap_def createItemElMap_def querySelectorAll_def demo_descendants
  by (simp_all add: register_def demoTagged_def)

text \<open>
  The two views of the first example agree: construction on the authored tree gives
  the registries of the example page, whose children table is that of the tree.
\<close>

lemma twoSlots_of_demo:
  "fst (createSwapy ''k1'' (Some demoRoot) \<lparr>userAnimation = Absent, userContinuousMode = Absent\<rparr> demoData)
     = Inr \<lparr>slotElMap = slotElMap twoSlots, itemElMap = itemElMap twoSlots,
            swapCallback = None, previousMap = None\<rparr>
   \<and> childrenTable demoRoot = kids twoSlots"
proof -
  have "mergeConfig DEFAULT_CONFIG \<lparr>userAnimation = Absent, userContinuousMode = Absent\<rparr> = DEFAULT_CONFIG"
    by (simp add: mergeConfig_def DEFAULT_CONFIG_def)
  then have "fst (createSwapy ''k1'' (Some demoRoot) \<lparr>userAnimation = Absent, userContinuousMode = Absent\<rparr> demoData)
      = Inr (newSwapy demoTagged demoRoot)"
    by (simp add: createSwapy_valid demo_valid demo_tagged)
  moreover have "childrenTable demoRoot = kids twoSlots"
    unfolding childrenTable_def demo_descendants
    by (simp add: demoRoot_def twoSlots_def fun_eq_iff)
  ultimately show ?thesis
    by (simp add: newSwapy_def demo_registries twoSlots_def)
qed

section \<open>Validation and construction\<close>

text \<open>
  C4 (as amended). Validation answers true exactly when the root has at least one slot
  and every slot has a non-empty slot id, at most one child element, and no child
  without a non-empty item id. No slot at all, an empty slot id and more than one child
  are each reported by a diagnostic of their own. The item id is looked at on the first
  child only: a first child without item id is reported by the diagnostic of that
  rule, a later one only by the diagnostic of the surplus child. The diagnostics are
  those of every slot in document order, none left out, and the verdict is true
  exactly when there is none.
\<close>

theorem validate_verdict_and_diagnostics:
  "(fst (validate data root) \<longleftrightarrow>
      querySelectorAll data ''swapySlot'' root \<noteq> []
      \<and> (\<forall>slot\<in>set (querySelectorAll data ''swapySlot'' root). slotOk data slot))
   \<and> (querySelectorAll data ''swapySlot'' root = [] \<longrightarrow>
        NoSlots (ident root) \<in> set (snd (validate data root)))
   \<and> (\<forall>slot\<in>set (querySelectorAll data ''swapySlot'' root).
        (blank (data (ident slot) ''swapySlot'') \<longrightarrow>
           MissingSlotId (ident slot) \<in> set (snd (validate data root)))
        \<and> (length (children slot) > 1 \<longrightarrow>
           TooManyChildren (data (ident slot) ''swapySlot'') \<in> set (snd (validate data root)))
        \<and> (\<forall>child others. children slot = child # others
              \<and> blank (data (ident child) ''swapyItem'') \<longrightarrow>
              UnlabelledChild (data (ident slot) ''swapySlot'') \<in> set (snd (validate data root)))
        \<and> (\<forall>child\<in>set (children slot). blank (data (ident child) ''swapyItem'') \<longrightarrow>
              UnlabelledChild (data (ident slot) ''swapySlot'') \<in> set (snd (validate data root))
              \<or> TooManyChildren (data (ident slot) ''swapySlot'') \<in> set (snd (validate data root))))
   \<and> snd (validate data root) =
        (if querySelectorAll data ''swapySlot'' root = [] then [NoSlots (ident root)] else [])
        @ concat (map (slotDiagnostics data) (querySelectorAll data ''swapySlot'' root))
   \<and> (fst (validate data root) \<longleftrightarrow> snd (validate data root) = [])"
proof -
  let ?slots = "querySelectorAll data ''swapySlot'' root"
  let ?out = "snd (validate data root)"
  have out: "?out = (if ?slots = [] then [NoSlots (ident root)] else [])
        @ concat (map (slotDiagnostics data) ?slots)"
    by (simp add: validate_eq)
  have verdict: "fst (validate data root) \<longleftrightarrow> ?slots \<noteq> [] \<and> (\<forall>slot\<in>set ?slots. slotOk data slot)"
    by (simp add: validate_eq)
  have none: "?slots = [] \<longrightarrow> NoSlots (ident root) \<in> set ?out"
    by (simp add: out)
  have sub: "set (slotDiagnostics data slot) \<subseteq> set ?out" if "slot \<in> set ?slots" for slot
    using that by (auto simp: out)
  have each: "(blank (data (ident slot) ''swapySlot'') \<longrightarrow> MissingSlotId (ident slot) \<in> set ?out)
        \<and> (length (children slot) > 1 \<longrightarrow> TooManyChildren (data (ident slot) ''swapySlot'') \<in> set ?out)
        \<and> (\<forall>child others. children slot = child # others
              \<and> blank (data (ident child) ''swapyItem'') \<longrightarrow>
              UnlabelledChild (data (ident slot) ''swapySlot'') \<in> set ?out)
        \<and> (\<forall>child\<in>set (children slot). blank (data (ident child) ''swapyItem'') \<longrightarrow>
              UnlabelledChild (data (ident slot) ''swapySlot'') \<in> set ?out
              \<or> TooManyChildren (data (ident slot) ''swapySlot'') \<in> set ?out)"
    if "slot \<in> set ?slots" for slot
  proof -
    have a: "blank (data (ident slot) ''swapySlot'') \<longrightarrow>
        MissingSlotId (ident slot) \<in> set (slotDiagnostics data slot)"
      by (simp add: slotDiagnostics_def)
    have b: "length (children slot) > 1 \<longrightarrow>
        TooManyChildren (data (ident slot) ''swapySlot'') \<in> set (slotDiagnostics data slot)"
      by (simp add: slotDiagnostics_def)
    have c: "\<forall>child\<in>set (children slot). blank (data (ident child) ''swapyItem'') \<longrightarrow>
        UnlabelledChild (data (ident slot) ''swapySlot'') \<in> set (slotDiagnostics data slot)
        \<or> TooManyChildren (data (ident slot) ''swapySlot'') \<in> set (slotDiagnostics data slot)"
      by (cases "children slot"; cases "tl (children slot)") (auto simp: slotDiagnostics_def)
    have f: "\<forall>child others. children slot = child # others
        \<and> blank (data (ident child) ''swapyItem'') \<longrightarrow>
        UnlabelledChild (data (ident slot) ''swapySlot'') \<in> set (slotDiagnostics data slot)"
      by (auto simp: slotDiagnostics_def)
    from a b c f sub [OF that] show ?thesis by blast
  qed
  from verdict none each out validate_verdict [of data root] show ?thesis
    by blast
qed

text \<open>
  Two rules are broken, more than one child and a child without item id, and one
  diagnostic is printed: the unlabelled child is the second one.
\<close>

theorem validate_verdict_and_diagnostics_counterexample:
  "querySelectorAll surplusData ''swapySlot'' surplusRoot = [Node 1 [Node 11 [], Node 13 []]]
   \<and> blank (surplusData 13 ''swapyItem'')
   \<and> validate surplusData surplusRoot = (False, [TooManyChildren (Some ''a'')])"
  by (simp add: validate_eq query_simps slotDiagnostics_def slotOk_def blank_def surplusData_def
      surplusRoot_def)

text \<open>The broken markup gets its three diagnostics, the first example none.\<close>

theorem validate_verdict_and_diagnostics_witness:
  "validate brokenData brokenRoot =
     (False, [MissingSlotId 1, TooManyChildren (Some []), UnlabelledChild (Some ''right'')])
   \<and> validate demoData demoRoot = (True, [])"
proof -
  have b: "querySelectorAll brokenData ''swapySlot'' brokenRoot
      = [Node 1 [Node 11 [], Node 13 []], Node 2 [Node 12 []]]"
    by (simp add: query_simps brokenData_def brokenRoot_def)
  have d: "querySelectorAll demoData ''swapySlot'' demoRoot = [Node 1 [Node 11 []], Node 2 [Node 12 []]]"
    by (simp add: query_simps demoData_def demoRoot_def)
  have "snd (validate brokenData brokenRoot) =
      (if querySelectorAll brokenData ''swapySlot'' brokenRoot = [] then [NoSlots (ident brokenRoot)] else [])
      @ concat (map (slotDiagnostics brokenData) (querySelectorAll brokenData ''swapySlot'' brokenRoot))"
    using validate_verdict_and_diagnostics [of brokenData brokenRoot] by blast
  then have "snd (validate brokenData brokenRoot) =
      [MissingSlotId 1, TooManyChildren (Some []), UnlabelledChild (Some ''right'')]"
    unfolding b by (simp add: slotDiagnostics_def blank_def brokenData_def)
  moreover have "snd (validate demoData demoRoot) =
      (if querySelectorAll demoData ''swapySlot'' demoRoot = [] then [NoSlots (ident demoRoot)] else [])
      @ concat (map (slotDiagnostics demoData) (querySelectorAll demoData ''swapySlot'' demoRoot))"
    using validate_verdict_and_diagnostics [of demoData demoRoot] by blast
  then have "snd (validate demoData demoRoot) = []"
    unfolding d by (simp add: slotDiagnostics_def blank_def demoData_def)
  moreover have "fst (validate brokenData brokenRoot) \<longleftrightarrow> snd (validate brokenData brokenRoot) = []"
    using validate_verdict_and_diagnostics [of brokenData brokenRoot] by blast
  moreover have "fst (validate demoData demoRoot) \<longleftrightarrow> snd (validate demoData demoRoot) = []"
    using validate_verdict_and_diagnostics [of demoData demoRoot] by blast
  ultimately show ?thesis
    by (simp add: prod_eq_iff)
qed

text \<open>
  C5. Without a root, construction throws the missing-root error. With a root whose
  validation reports a violation, it throws the invalid-structure error after the
  diagnostics. Whenever construction throws, the dataset store is the one it was
  given (nothing is stamped), the error is one of these two, and no instance is
  returned. When validation reports nothing, construction tags the tree and returns
  the instance.
\<close>

theorem createSwapy_fails_untouched:
  "createSwapy pluginKey None userConfig data = (Inl MissingRoot, data, [])
   \<and> (snd (validate data rootEl) \<noteq> [] \<longrightarrow>
        createSwapy pluginKey (Some rootEl) userConfig data =
          (Inl InvalidStructure, data, snd (validate data rootEl)))
   \<and> (\<forall>err. fst (createSwapy pluginKey root userConfig data) = Inl err \<longrightarrow>
        fst (snd (createSwapy pluginKey root userConfig data)) = data
        \<and> (err = MissingRoot \<and> root = None
             \<or> err = InvalidStructure
                \<and> (\<exists>el. root = Some el \<and> snd (validate data el) \<noteq> []
                      \<and> snd (snd (createSwapy pluginKey root userConfig data)) = snd (validate data el))))
   \<and> (snd (validate data rootEl) = [] \<longrightarrow>
        createSwapy pluginKey (Some rootEl) userConfig data =
          (Inr (newSwapy (addVeloxiDataAttributes pluginKey rootEl
                            (mergeConfig DEFAULT_CONFIG userConfig) data) rootEl),
           addVeloxiDataAttributes pluginKey rootEl (mergeConfig DEFAULT_CONFIG userConfig) data,
           []))"
proof -
  have a: "createSwapy pluginKey None userConfig data = (Inl MissingRoot, data, [])"
    by (simp add: createSwapy_def)
  have b: "snd (validate data rootEl) \<noteq> [] \<longrightarrow>
        createSwapy pluginKey (Some rootEl) userConfig data =
          (Inl InvalidStructure, data, snd (validate data rootEl))"
    by (simp add: createSwapy_invalid validate_verdict)
  have c: "fst (snd (createSwapy pluginKey root userConfig data)) = data
        \<and> (err = MissingRoot \<and> root = None
             \<or> err = InvalidStructure
                \<and> (\<exists>el. root = Some el \<and> snd (validate data el) \<noteq> []
                      \<and> snd (snd (createSwapy pluginKey root userConfig data)) = snd (validate data el)))"
    if "fst (createSwapy pluginKey root userConfig data) = Inl err" for err
  proof (cases root)
    case None
    with that show ?thesis by (simp add: createSwapy_def)
  next
    case (Some el)
    show ?thesis
    proof (cases "fst (validate data el)")
      case True
      with that Some show ?thesis by (simp add: createSwapy_valid)
    next
      case False
      with that Some show ?thesis by (auto simp: createSwapy_invalid validate_verdict)
    qed
  qed
  have d: "snd (validate data rootEl) = [] \<longrightarrow>
        createSwapy pluginKey (Some rootEl) userConfig data =
          (Inr (newSwapy (addVeloxiDataAttributes pluginKey rootEl
                            (mergeConfig DEFAULT_CONFIG userConfig) data) rootEl),
           addVeloxiDataAttributes pluginKey rootEl (mergeConfig DEFAULT_CONFIG userConfig) data,
           [])"
    by (simp add: createSwapy_valid validate_verdict)
  from a b c d show ?thesis by blast
qed

text \<open>No root; the broken markup; the first example, which is tagged.\<close>

theorem createSwapy_fails_untouched_witness:
  "createSwapy ''k1'' None \<lparr>userAnimation = Absent, userContinuousMode = Absent\<rparr> demoData
     = (Inl MissingRoot, demoData, [])
   \<and> createSwapy ''k1'' (Some brokenRoot) \<lparr>userAnimation = Absent, userContinuousMode = Absent\<rparr> brokenData
     = (Inl InvalidStructure, brokenData,
        [MissingSlotId 1, TooManyChildren (Some []), UnlabelledChild (Some ''right'')])
   \<and> createSwapy ''k1'' (Some demoRoot) \<lparr>userAnimation = Absent, userContinuousMode = Absent\<rparr> demoData
     = (Inr (newSwapy demoTagged demoRoot), demoTagged, [])"
proof -
  let ?u = "\<lparr>userAnimation = Absent, userContinuousMode = Absent\<rparr>"
  have cfg: "mergeConfig DEFAULT_CONFIG ?u = DEFAULT_CONFIG"
    by (simp add: mergeConfig_def DEFAULT_CONFIG_def)
  have one: "createSwapy ''k1'' None ?u demoData = (Inl MissingRoot, demoData, [])"
    using createSwapy_fails_untouched [of "''k1''" ?u demoData] by blast
  have two: "createSwapy ''k1'' (Some brokenRoot) ?u brokenData = (Inl InvalidStructure, brokenData,
        [MissingSlotId 1, TooManyChildren (Some []), UnlabelledChild (Some ''right'')])"
    using createSwapy_fails_untouched [of "''k1''" ?u brokenData brokenRoot]
    by (simp add: broken_invalid)
  have three: "createSwapy ''k1'' (Some demoRoot) ?u demoData
      = (Inr (newSwapy demoTagged demoRoot), demoTagged, [])"
    using createSwapy_fails_untouched [of "''k1''" ?u demoData demoRoot]
    by (simp add: demo_valid cfg demo_tagged)
  from one two three show ?thesis by simp
qed

section \<open>Re-tagging late insertions\<close>

text \<open>
  C8 (as amended). In a tree of distinct elements: a batch without a child-list change
  leaves datasets and registries as they are. On a batch with one, every item-marked
  element below the root that has no view marker gets the item view and its item id as
  layout id, its first handle descendant gets the handle view (the item view when it is
  itself such an item), and its text and exclude descendants get their flags. Nothing
  else is written: the four markers of every element are given exactly, no other
  attribute changes, and an element that is neither such an item nor the first handle
  nor a text or exclude descendant of one keeps its dataset, be it tagged or not and
  inside a new item or not; so does the root. The two registries are rebuilt from the
  tree when there was such an item, and are left as they are (with every dataset) when
  there was none.
\<close>

theorem onMutations_retags:
  assumes "distinct (map ident (rootEl # descendants rootEl))"
    and "onMutations rootEl mutations (data, this) = (data', this')"
  shows "(\<not> list_ex (\<lambda>m. m = ChildList) mutations \<longrightarrow> data' = data \<and> this' = this)
   \<and> (list_ex (\<lambda>m. m = ChildList) mutations \<longrightarrow>
        (\<forall>item\<in>set (untaggedItems data rootEl).
            data' (ident item) ''velView'' = Some ''item''
          \<and> data' (ident item) ''velLayoutId'' = data (ident item) ''swapyItem''
          \<and> (\<forall>h. querySelector data ''swapyHandle'' item = Some h \<longrightarrow>
                data' (ident h) ''velView'' =
                  Some (if h \<in> set (untaggedItems data rootEl) then ''item'' else ''handle''))
          \<and> (\<forall>el\<in>set (querySelectorAll data ''swapyText'' item).
                data' (ident el) ''velLayoutPosition'' = Some [])
          \<and> (\<forall>el\<in>set (querySelectorAll data ''swapyExclude'' item).
                data' (ident el) ''velIgnore'' = Some []))
        \<and> (\<forall>e. data' e ''velView'' =
              (if e \<in> ident ` set (untaggedItems data rootEl) then Some ''item''
               else if \<exists>item\<in>set (untaggedItems data rootEl).
                         \<exists>h. querySelector data ''swapyHandle'' item = Some h \<and> ident h = e
                 then Some ''handle''
               else data e ''velView''))
        \<and> (\<forall>e. data' e ''velLayoutId'' =
              (if e \<in> ident ` set (untaggedItems data rootEl) then data e ''swapyItem''
               else data e ''velLayoutId''))
        \<and> (\<forall>e. data' e ''velLayoutPosition'' =
              (if \<exists>item\<in>set (untaggedItems data rootEl).
                    e \<in> ident ` set (querySelectorAll data ''swapyText'' item)
               then Some [] else data e ''velLayoutPosition''))
        \<and> (\<forall>e. data' e ''velIgnore'' =
              (if \<exists>item\<in>set (untaggedItems data rootEl).
                    e \<in> ident ` set (querySelectorAll data ''swapyExclude'' item)
               then Some [] else data e ''velIgnore''))
        \<and> (\<forall>e key. key \<notin> markers \<longrightarrow> data' e key = data e key)
        \<and> (\<forall>e. e \<notin> ident ` set (untaggedItems data rootEl)
              \<and> (\<forall>item\<in>set (untaggedItems data rootEl).
                    (\<forall>h. querySelector data ''swapyHandle'' item = Some h \<longrightarrow> ident h \<noteq> e)
                    \<and> e \<notin> ident ` set (querySelectorAll data ''swapyText'' item)
                    \<and> e \<notin> ident ` set (querySelectorAll data ''swapyExclude'' item))
              \<longrightarrow> data' e = data e)
        \<and> data' (ident rootEl) = data (ident rootEl)
        \<and> (untaggedItems data rootEl \<noteq> [] \<longrightarrow>
              this' = this\<lparr>slotElMap := createSlotElMap data' rootEl,
                           itemElMap := createItemElMap data' rootEl\<rparr>)
        \<and> (untaggedItems data rootEl = [] \<longrightarrow> this' = this \<and> data' = data))"
proof -
  let ?items = "untaggedItems data rootEl"
  from assms(1) have d: "distinct (map ident (descendants rootEl))"
    and r: "ident rootEl \<notin> ident ` set (descendants rootEl)" by simp_all
  note ord = untaggedItems_ordered [OF d, of data]
  have one: "data' = data \<and> this' = this" if "\<not> list_ex (\<lambda>m. m = ChildList) mutations"
    using that assms(2) by (simp add: onMutations_other)
  have two: "(\<forall>item\<in>set ?items.
            data' (ident item) ''velView'' = Some ''item''
          \<and> data' (ident item) ''velLayoutId'' = data (ident item) ''swapyItem''
          \<and> (\<forall>h. querySelector data ''swapyHandle'' item = Some h \<longrightarrow>
                data' (ident h) ''velView'' = Some (if h \<in> set ?items then ''item'' else ''handle''))
          \<and> (\<forall>el\<in>set (querySelectorAll data ''swapyText'' item).
                data' (ident el) ''velLayoutPosition'' = Some [])
          \<and> (\<forall>el\<in>set (querySelectorAll data ''swapyExclude'' item).
                data' (ident el) ''velIgnore'' = Some []))
        \<and> (\<forall>e. data' e ''velView'' =
              (if e \<in> ident ` set ?items then Some ''item''
               else if \<exists>item\<in>set ?items.
                         \<exists>h. querySelector data ''swapyHandle'' item = Some h \<and> ident h = e
                 then Some ''handle''
               else data e ''velView''))
        \<and> (\<forall>e. data' e ''velLayoutId'' =
              (if e \<in> ident ` set ?items then data e ''swapyItem'' else data e ''velLayoutId''))
        \<and> (\<forall>e. data' e ''velLayoutPosition'' =
              (if \<exists>item\<in>set ?items. e \<in> ident ` set (querySelectorAll data ''swapyText'' item)
               then Some [] else data e ''velLayoutPosition''))
        \<and> (\<forall>e. data' e ''velIgnore'' =
              (if \<exists>item\<in>set ?items. e \<in> ident ` set (querySelectorAll data ''swapyExclude'' item)
               then Some [] else data e ''velIgnore''))
        \<and> (\<forall>e key. key \<notin> markers \<longrightarrow> data' e key = data e key)
        \<and> (\<forall>e. e \<notin> ident ` set ?items
              \<and> (\<forall>item\<in>set ?items.
                    (\<forall>h. querySelector data ''swapyHandle'' item = Some h \<longrightarrow> ident h \<noteq> e)
                    \<and> e \<notin> ident ` set (querySelectorAll data ''swapyText'' item)
                    \<and> e \<notin> ident ` set (querySelectorAll data ''swapyExclude'' item))
              \<longrightarrow> data' e = data e)
        \<and> data' (ident rootEl) = data (ident rootEl)
        \<and> (?items \<noteq> [] \<longrightarrow>
              this' = this\<lparr>slotElMap := createSlotElMap data' rootEl,
                           itemElMap := createItemElMap data' rootEl\<rparr>)
        \<and> (?items = [] \<longrightarrow> this' = this \<and> data' = data)"
    if "list_ex (\<lambda>m. m = ChildList) mutations"
  proof -
    from onMutations_childList [OF that, of rootEl data this] assms(2)
    have data': "data' = fold resyncItem ?items data"
      and this': "this' = (if ?items \<noteq> []
        then this\<lparr>slotElMap := createSlotElMap data' rootEl, itemElMap := createItemElMap data' rootEl\<rparr>
        else this)"
      by simp_all
    have view: "data' (ident item) ''velView'' = Some ''item''" if "item \<in> set ?items" for item
      unfolding data' using ord that by (rule fold_resync_view_item)
    have views: "data' e ''velView'' =
              (if e \<in> ident ` set ?items then Some ''item''
               else if \<exists>item\<in>set ?items.
                         \<exists>h. querySelector data ''swapyHandle'' item = Some h \<and> ident h = e
                 then Some ''handle''
               else data e ''velView'')" for e
    proof (cases "e \<in> ident ` set ?items")
      case True
      then obtain n where "n \<in> set ?items" and "e = ident n" by auto
      with view True show ?thesis by simp
    next
      case False
      from fold_resync_view_other [OF False, of data] False show ?thesis
        by (simp add: data')
    qed
    have swapyItem: "\<exists>v. data e ''swapyItem'' = Some v" if "e \<in> ident ` set ?items" for e
      using that by (auto simp: untaggedItems_def)
    have layouts: "data' e ''velLayoutId'' =
              (if e \<in> ident ` set ?items then data e ''swapyItem'' else data e ''velLayoutId'')" for e
      using swapyItem [of e] by (auto simp: data' fold_resync_layoutId jsString_def)
    have positions: "data' e ''velLayoutPosition'' =
              (if \<exists>item\<in>set ?items. e \<in> ident ` set (querySelectorAll data ''swapyText'' item)
               then Some [] else data e ''velLayoutPosition'')" for e
      by (simp add: data' fold_resync_text)
    have ignores: "data' e ''velIgnore'' =
              (if \<exists>item\<in>set ?items. e \<in> ident ` set (querySelectorAll data ''swapyExclude'' item)
               then Some [] else data e ''velIgnore'')" for e
      by (simp add: data' fold_resync_exclude)
    have markup: "data' e key = data e key" if "key \<notin> markers" for e key
      unfolding data' using that by (rule fold_resync_markup)
    have layout: "data' (ident item) ''velLayoutId'' = data (ident item) ''swapyItem''"
      if "item \<in> set ?items" for item
      using that layouts [of "ident item"] by simp
    have handle: "data' (ident h) ''velView'' = Some (if h \<in> set ?items then ''item'' else ''handle'')"
      if "item \<in> set ?items" and h: "querySelector data ''swapyHandle'' item = Some h" for item h
    proof (cases "h \<in> set ?items")
      case True
      with view show ?thesis by simp
    next
      case False
      from that untaggedItems_in [of data rootEl] have "item \<in> set (descendants rootEl)" by auto
      with querySelector_in [OF h] have hin: "h \<in> set (descendants rootEl)"
        using descendants_trans by blast
      have "ident h \<notin> ident ` set ?items"
      proof
        assume "ident h \<in> ident ` set ?items"
        then obtain n where n: "n \<in> set ?items" and "ident h = ident n" by auto
        moreover from n untaggedItems_in [of data rootEl] have "n \<in> set (descendants rootEl)" by auto
        moreover from d have "inj_on ident (set (descendants rootEl))" by (simp add: distinct_map)
        ultimately have "h = n" using hin by (auto dest: inj_onD)
        with n False show False by simp
      qed
      with views [of "ident h"] that False show ?thesis by auto
    qed
    have position: "data' (ident el) ''velLayoutPosition'' = Some []"
      if "item \<in> set ?items" and "el \<in> set (querySelectorAll data ''swapyText'' item)" for item el
      using that positions [of "ident el"] by auto
    have excl: "data' (ident el) ''velIgnore'' = Some []"
      if "item \<in> set ?items" and "el \<in> set (querySelectorAll data ''swapyExclude'' item)" for item el
      using that ignores [of "ident el"] by auto
    have frame: "data' e = data e"
      if out: "e \<notin> ident ` set ?items"
        and rest: "\<forall>item\<in>set ?items.
                    (\<forall>h. querySelector data ''swapyHandle'' item = Some h \<longrightarrow> ident h \<noteq> e)
                    \<and> e \<notin> ident ` set (querySelectorAll data ''swapyText'' item)
                    \<and> e \<notin> ident ` set (querySelectorAll data ''swapyExclude'' item)" for e
    proof (rule ext)
      fix key
      show "data' e key = data e key"
      proof (cases "key \<in> markers")
        case False
        then show ?thesis by (rule markup)
      next
        case True
        then consider "key = ''velView''" | "key = ''velLayoutId''" | "key = ''velLayoutPosition''"
          | "key = ''velIgnore''" by (auto simp: markers_def)
        then show ?thesis
        proof cases
          case 1
          with views [of e] out rest show ?thesis by auto
        next
          case 2
          with layouts [of e] out show ?thesis by simp
        next
          case 3
          with positions [of e] rest show ?thesis by auto
        next
          case 4
          with ignores [of e] rest show ?thesis by auto
        qed
      qed
    qed
    have below: "n \<in> set (descendants rootEl)"
      if "item \<in> set ?items" and "n \<in> set (item # descendants item)" for item n
      using that untaggedItems_in [of data rootEl] descendants_trans [of item rootEl] by auto
    have root: "data' (ident rootEl) = data (ident rootEl)"
    proof (rule frame)
      show "ident rootEl \<notin> ident ` set ?items"
        using r untaggedItems_in [of data rootEl] by auto
      show "\<forall>item\<in>set ?items.
          (\<forall>h. querySelector data ''swapyHandle'' item = Some h \<longrightarrow> ident h \<noteq> ident rootEl)
          \<and> ident rootEl \<notin> ident ` set (querySelectorAll data ''swapyText'' item)
          \<and> ident rootEl \<notin> ident ` set (querySelectorAll data ''swapyExclude'' item)"
      proof (intro ballI conjI allI impI)
        fix item h assume i: "item \<in> set ?items" and h: "querySelector data ''swapyHandle'' item = Some h"
        from below [OF i] querySelector_in [OF h] have "h \<in> set (descendants rootEl)" by simp
        with r show "ident h \<noteq> ident rootEl" by (metis imageI)
      next
        fix item assume i: "item \<in> set ?items"
        from below [OF i] querySelectorAll_in [of data "''swapyText''" item]
        have "set (querySelectorAll data ''swapyText'' item) \<subseteq> set (descendants rootEl)" by auto
        with r show "ident rootEl \<notin> ident ` set (querySelectorAll data ''swapyText'' item)" by auto
      next
        fix item assume i: "item \<in> set ?items"
        from below [OF i] querySelectorAll_in [of data "''swapyExclude''" item]
        have "set (querySelectorAll data ''swapyExclude'' item) \<subseteq> set (descendants rootEl)" by auto
        with r show "ident rootEl \<notin> ident ` set (querySelectorAll data ''swapyExclude'' item)" by auto
      qed
    qed
    have none: "this' = this \<and> data' = data" if "?items = []"
      using that this' data' by simp
    have items: "\<forall>item\<in>set ?items.
            data' (ident item) ''velView'' = Some ''item''
          \<and> data' (ident item) ''velLayoutId'' = data (ident item) ''swapyItem''
          \<and> (\<forall>h. querySelector data ''swapyHandle'' item = Some h \<longrightarrow>
                data' (ident h) ''velView'' = Some (if h \<in> set ?items then ''item'' else ''handle''))
          \<and> (\<forall>el\<in>set (querySelectorAll data ''swapyText'' item).
                data' (ident el) ''velLayoutPosition'' = Some [])
          \<and> (\<forall>el\<in>set (querySelectorAll data ''swapyExclude'' item).
                data' (ident el) ''velIgnore'' = Some [])"
      using view layout handle position excl by blast
    have registries: "?items \<noteq> [] \<longrightarrow>
              this' = this\<lparr>slotElMap := createSlotElMap data' rootEl,
                           itemElMap := createItemElMap data' rootEl\<rparr>"
      using this' by simp
    have c1: "\<forall>e. data' e ''velView'' =
              (if e \<in> ident ` set ?items then Some ''item''
               else if \<exists>item\<in>set ?items.
                         \<exists>h. querySelector data ''swapyHandle'' item = Some h \<and> ident h = e
                 then Some ''handle''
               else data e ''velView'')"
      by (intro allI) (rule views)
    have c2: "\<forall>e. data' e ''velLayoutId'' =
              (if e \<in> ident ` set ?items then data e ''swapyItem'' else data e ''velLayoutId'')"
      by (intro allI) (rule layouts)
    have c3: "\<forall>e. data' e ''velLayoutPosition'' =
              (if \<exists>item\<in>set ?items. e \<in> ident ` set (querySelectorAll data ''swapyText'' item)
               then Some [] else data e ''velLayoutPosition'')"
      by (intro allI) (rule positions)
    have c4: "\<forall>e. data' e ''velIgnore'' =
              (if \<exists>item\<in>set ?items. e \<in> ident ` set (querySelectorAll data ''swapyExclude'' item)
               then Some [] else data e ''velIgnore'')"
      by (intro allI) (rule ignores)
    have c5: "\<forall>e key. key \<notin> markers \<longrightarrow> data' e key = data e key"
      by (intro allI impI) (rule markup)
    have c6: "\<forall>e. e \<notin> ident ` set ?items
              \<and> (\<forall>item\<in>set ?items.
                    (\<forall>h. querySelector data ''swapyHandle'' item = Some h \<longrightarrow> ident h \<noteq> e)
                    \<and> e \<notin> ident ` set (querySelectorAll data ''swapyText'' item)
                    \<and> e \<notin> ident ` set (querySelectorAll data ''swapyExclude'' item))
              \<longrightarrow> data' e = data e"
    proof (intro allI impI)
      fix e
      assume a: "e \<notin> ident ` set ?items
              \<and> (\<forall>item\<in>set ?items.
                    (\<forall>h. querySelector data ''swapyHandle'' item = Some h \<longrightarrow> ident h \<noteq> e)
                    \<and> e \<notin> ident ` set (querySelectorAll data ''swapyText'' item)
                    \<and> e \<notin> ident ` set (querySelectorAll data ''swapyExclude'' item))"
      from a [THEN conjunct1] a [THEN conjunct2] show "data' e = data e" by (rule frame)
    qed
    have c7: "?items = [] \<longrightarrow> this' = this \<and> data' = data"
      using none by (intro impI)
    from items c1 c2 c3 c4 c5 c6 root registries c7 show ?thesis
      by - (intro conjI, assumption+)
  qed
  from one two show ?thesis by blast
qed

text \<open>
  Inside the subtree of a new item an element that is already tagged is marked again:
  here the element tagged as item \<open>t\<close> becomes the handle of the new item \<open>n\<close>.
\<close>

theorem onMutations_retags_counterexample:
  "untaggedItems nestedData nestedRoot = [Node 30 [Node 31 []]]
   \<and> nestedData 31 ''velView'' = Some ''item''
   \<and> fst (onMutations nestedRoot [ChildList] (nestedData, staleSwapy)) 31 ''velView'' = Some ''handle''"
  by (simp add: nestedData_def nestedRoot_def query_simps tag_simps)

text \<open>
  What counts as untagged is having no view marker at all: after that batch the element
  of item \<open>t\<close> carries the handle view, so it lacks the item view, and yet a further
  batch finds no item to tag.
\<close>

lemma handle_marked_item_stays:
  "fst (onMutations nestedRoot [ChildList] (nestedData, staleSwapy)) 31 ''swapyItem'' = Some ''t''
   \<and> untaggedItems (fst (onMutations nestedRoot [ChildList] (nestedData, staleSwapy))) nestedRoot = []
   \<and> fst (onMutations nestedRoot [ChildList]
          (onMutations nestedRoot [ChildList] (nestedData, staleSwapy))) 31 ''velView''
       = Some ''handle''"
  by (simp add: nestedData_def nestedRoot_def query_simps tag_simps)

text \<open>The late insertion: item \<open>y\<close> is tagged and registered, item \<open>x\<close> and the root stay.\<close>

theorem onMutations_retags_witness:
  "\<exists>data' this'. onMutations lateRoot [ChildList] (lateData, staleSwapy) = (data', this')
     \<and> data' 12 ''velView'' = Some ''item'' \<and> data' 12 ''velLayoutId'' = Some ''y''
     \<and> data' 21 ''velView'' = Some ''handle'' \<and> data' 22 ''velLayoutPosition'' = Some []
     \<and> data' 0 = lateData 0 \<and> data' 11 = lateData 11
     \<and> itemElMap this' = [''x'' \<mapsto> 11, ''y'' \<mapsto> 12]"
proof -
  obtain data' this' where run: "onMutations lateRoot [ChildList] (lateData, staleSwapy) = (data', this')"
    by (cases "onMutations lateRoot [ChildList] (lateData, staleSwapy)")
  have ids: "distinct (map ident (lateRoot # descendants lateRoot))"
    by (simp add: lateRoot_def)
  have items: "untaggedItems lateData lateRoot = [Node 12 [Node 21 [], Node 22 []]]"
    by (simp add: query_simps lateData_def lateRoot_def)
  have h: "querySelector lateData ''swapyHandle'' (Node 12 [Node 21 [], Node 22 []]) = Some (Node 21 [])"
    by (simp add: query_simps lateData_def)
  have t: "querySelectorAll lateData ''swapyText'' (Node 12 [Node 21 [], Node 22 []]) = [Node 22 []]"
    by (simp add: query_simps lateData_def)
  have y: "lateData 12 ''swapyItem'' = Some ''y''"
    by (simp add: lateData_def)
  have c: "list_ex (\<lambda>m. m = ChildList) [ChildList]" by simp
  have x: "querySelectorAll lateData ''swapyExclude'' (Node 12 [Node 21 [], Node 22 []]) = []"
    by (simp add: query_simps lateData_def)
  note run_facts = onMutations_retags [OF ids run, THEN conjunct2, THEN mp, OF c]
  note all = run_facts [THEN conjunct1]
  note others = run_facts [THEN conjunct2, THEN conjunct2, THEN conjunct2, THEN conjunct2,
    THEN conjunct2, THEN conjunct2]
  note frame = others [THEN conjunct1]
  note reg = others [THEN conjunct2, THEN conjunct2, THEN conjunct1]
  from all have a: "data' 12 ''velView'' = Some ''item''" "data' 12 ''velLayoutId'' = Some ''y''"
    "data' 21 ''velView'' = Some ''handle''" "data' 22 ''velLayoutPosition'' = Some []"
    unfolding items by (simp_all add: h t y)
  from frame [rule_format, of 0] frame [rule_format, of 11]
  have f: "data' 0 = lateData 0" "data' 11 = lateData 11"
    unfolding items by (simp_all add: h t x)
  have "data' = fst (onMutations lateRoot [ChildList] (lateData, staleSwapy))"
    by (simp add: run)
  then have "createItemElMap data' lateRoot = [''x'' \<mapsto> 11, ''y'' \<mapsto> 12]"
    by (simp add: lateData_def lateRoot_def query_simps tag_simps)
  with reg items have "itemElMap this' = [''x'' \<mapsto> 11, ''y'' \<mapsto> 12]" by simp
  with run a f show ?thesis by blast
qed

section \<open>Suppression of a re-emitted map\<close>

text \<open>
  C1. When a map is stored and the candidate of a swap event holds the same
  key-to-value pairs (the keys of a map are distinct; their order is irrelevant), the
  handler changes nothing: the page it leaves is the page it found, so the children
  table, the trace of callback invocations and the stored map are the same.
\<close>

theorem onSwap_suppressed_noop:
  assumes "previousMap this = Some prev"
    and "distinct (map fst prev)" and "distinct (map fst (emap event))"
    and "map_of prev = map_of (emap event)"
  shows "onSwap event this = Inr this"
proof -
  from assms(2-4) have "set prev = set (emap event)"
    by (simp add: map_of_inject_set)
  with assms(1) have "suppressed event this"
    by (simp add: suppressed_def mapsAreEqual_def)
  then show ?thesis
    by (simp add: onSwap_def)
qed

text \<open>The example page receives its stored map again, the keys in the other order.\<close>

theorem onSwap_suppressed_noop_witness:
  "onSwap \<lparr>emap = [(''right'', Some ''y''), (''left'', Some ''x'')], emeta = ''drop''\<rparr> twoSlots
     = Inr twoSlots"
proof -
  have "map_of [(''left'', Some ''x''), (''right'', Some ''y'')]
      = map_of [(''right'', Some ''y''), (''left'', Some ''x'')]"
    by (rule ext) simp
  then show ?thesis
    using onSwap_suppressed_noop [of twoSlots "[(''left'', Some ''x''), (''right'', Some ''y'')]"
      "\<lparr>emap = [(''right'', Some ''y''), (''left'', Some ''x'')], emeta = ''drop''\<rparr>"]
    by (simp add: twoSlots_def)
qed

section \<open>Diff application\<close>

text \<open>
  C2 (as amended). A slot whose entry in the candidate equals its entry in the stored
  map is never cleared and never appended to. When distinct slot ids name distinct
  elements, a completed \<open>_applyOrder\<close> leaves it its children but for the items that
  the application places into changed slots; so when none of its children is such an
  item, its child list after \<open>_applyOrder\<close> is its child list before, whether the
  application returns or throws.
\<close>

theorem applyOrder_unchanged_slot:
  assumes "map_of m n = previousGet (previousMap this) n"
    and "slotElMap this n = Some p"
    and "inj_on (slotElMap this) (dom (slotElMap this))"
  shows "(\<forall>k'. applyOrder this m k = Inr k' \<longrightarrow>
            k' p = filter (\<lambda>c. c \<notin> snd ` set (applied this m)) (k p))
       \<and> ((\<forall>si\<in>set (applied this m). snd si \<notin> set (k p)) \<longrightarrow>
            domAfter (applyOrder this m k) p = k p)"
proof -
  note out = unchanged_not_target [OF assms]
  have one: "k' p = filter (\<lambda>c. c \<notin> snd ` set (applied this m)) (k p)"
    if "applyOrder this m k = Inr k'" for k'
    using that out by (simp add: applyOrder_placeAll placeAll_other)
  have two: "domAfter (applyOrder this m k) p = k p"
    if "\<forall>si\<in>set (applied this m). snd si \<notin> set (k p)"
  proof -
    from that have "\<forall>c\<in>set (k p). c \<notin> snd ` set (applied this m)" by force
    with out show ?thesis by (simp add: applyOrder_placeAll placeAll_frame)
  qed
  from one two show ?thesis by blast
qed

text \<open>
  The stored map is \<open>{left: null, right: y}\<close> while slot \<open>left\<close> still holds item \<open>x\<close>
  (the state after the init event \<open>{left: x, right: y}\<close> and the swap event
  \<open>{left: null, right: y}\<close>). The candidate \<open>{left: null, right: x}\<close> leaves the entry
  of \<open>left\<close> unchanged, and slot \<open>left\<close> loses its child.
\<close>

theorem applyOrder_unchanged_slot_counterexample:
  "map_of [(''left'', None), (''right'', Some ''x'')] ''left''
     = previousGet (previousMap (twoSlots\<lparr>previousMap := Some [(''left'', None), (''right'', Some ''y'')]\<rparr>)) ''left''
   \<and> slotElMap twoSlots ''left'' = Some 1
   \<and> kids twoSlots 1 = [11]
   \<and> applyOrder (twoSlots\<lparr>previousMap := Some [(''left'', None), (''right'', Some ''y'')]\<rparr>)
        [(''left'', None), (''right'', Some ''x'')] (kids twoSlots) =
      Inr ((\<lambda>e. [])(0 := [1, 2], 1 := [], 2 := [11]))"
  by (simp add: twoSlots_def run_simps fun_eq_iff)

text \<open>That state is the one the example page is in after such a swap event.\<close>

lemma stale_left_reached:
  "onSwap \<lparr>emap = [(''left'', None), (''right'', Some ''y'')], emeta = ''drop''\<rparr> twoSlots
     = Inr (twoSlots\<lparr>calls := [(listener, \<lparr>emap = [(''left'', None), (''right'', Some ''y'')], emeta = ''drop''\<rparr>)],
                     previousMap := Some [(''left'', None), (''right'', Some ''y'')]\<rparr>)"
  by (simp add: onSwap_def suppressed_def mapsAreEqual_def invoke_def twoSlots_def run_simps
      doubleton_eq_iff listener_returns)

text \<open>
  Stored \<open>{left: x, right: y}\<close>, candidate \<open>{left: x, right: z}\<close>: only slot \<open>right\<close>
  changes, slot \<open>left\<close> keeps item \<open>x\<close>.
\<close>

theorem applyOrder_unchanged_slot_witness:
  "applyOrder threeItems [(''left'', Some ''x''), (''right'', Some ''z'')] (kids threeItems)
     = Inr ((\<lambda>e. [])(0 := [1, 2], 1 := [11], 2 := [13]))
   \<and> domAfter (applyOrder threeItems [(''left'', Some ''x''), (''right'', Some ''z'')] (kids threeItems)) 1
     = kids threeItems 1"
proof -
  let ?m = "[(''left'', Some ''x''), (''right'', Some ''z'')]"
  have "inj_on (slotElMap threeItems) (dom (slotElMap threeItems))"
    by (auto simp: threeItems_def twoSlots_def inj_on_def split: if_splits)
  moreover have "\<forall>si\<in>set (applied threeItems ?m). snd si \<notin> set (kids threeItems 1)"
    by (simp add: applied_def target_def previousGet_def threeItems_def twoSlots_def
        List.map_filter_simps)
  moreover have "map_of ?m ''left'' = previousGet (previousMap threeItems) ''left''"
    by (simp add: previousGet_def threeItems_def twoSlots_def)
  moreover have "slotElMap threeItems ''left'' = Some 1"
    by (simp add: threeItems_def twoSlots_def)
  ultimately have "domAfter (applyOrder threeItems ?m (kids threeItems)) 1 = kids threeItems 1"
    using applyOrder_unchanged_slot [of ?m "''left''" threeItems 1 "kids threeItems"] by blast
  moreover have "applyOrder threeItems ?m (kids threeItems)
      = Inr ((\<lambda>e. [])(0 := [1, 2], 1 := [11], 2 := [13]))"
    by (simp add: threeItems_def twoSlots_def run_simps fun_eq_iff)
  ultimately show ?thesis by simp
qed

text \<open>
  C3 (as amended). Take two candidate maps with the same entries in different key
  orders, where no two applied entries name the same slot element or the same item
  element. If no item to place is an inclusive ancestor of a slot to fill, neither
  application throws; and whenever neither throws, both leave the same children table.
\<close>

theorem applyOrder_key_order:
  assumes "mset m' = mset m" and "distinct (map fst m)"
    and "distinct (map fst (applied this m))" and "distinct (map snd (applied this m))"
  shows "(unnested (applied this m) k \<longrightarrow>
            \<not> threw (applyOrder this m k) \<and> \<not> threw (applyOrder this m' k))
       \<and> (\<not> threw (applyOrder this m k) \<and> \<not> threw (applyOrder this m' k) \<longrightarrow>
            applyOrder this m' k = applyOrder this m k)"
proof -
  from assms(1) have keys: "mset (map fst m') = mset (map fst m)" by (metis mset_map)
  with assms(2) have d': "distinct (map fst m')" by (metis mset_eq_imp_distinct_iff)
  from assms(1) have "set m' = set m" by (metis mset_eq_setD)
  with assms(2) d' have "map_of m' = map_of m" by (simp add: map_of_inject_set)
  then have t: "target this m' = target this m" by (rule target_cong)
  with keys have perm: "mset (applied this m') = mset (applied this m)"
    by (simp add: applied_def map_filter_mset)
  then have sub: "set (applied this m') \<subseteq> set (applied this m)" by (metis mset_eq_setD order_refl)
  have one: "unnested (applied this m) k \<Longrightarrow>
      \<not> threw (applyOrder this m k) \<and> \<not> threw (applyOrder this m' k)"
    using placeAll_unnested [of "applied this m" k "applied this m"]
      placeAll_unnested [of "applied this m" k "applied this m'"] sub
    by (auto simp: applyOrder_placeAll threw_def)
  have two: "\<not> threw (applyOrder this m k) \<and> \<not> threw (applyOrder this m' k) \<Longrightarrow>
      applyOrder this m' k = applyOrder this m k"
  proof -
    assume "\<not> threw (applyOrder this m k) \<and> \<not> threw (applyOrder this m' k)"
    then obtain k1 k2 where r: "placeAll (applied this m) k = Inr k1" "placeAll (applied this m') k = Inr k2"
      by (auto simp: applyOrder_placeAll threw_def split: sum.splits)
    from placeAll_permuted [OF perm assms(3,4) r] r show ?thesis
      by (simp add: applyOrder_placeAll)
  qed
  from one two show ?thesis by blast
qed

text \<open>
  A candidate that assigns item \<open>x\<close> to both slots: the slot processed last keeps it.
\<close>

theorem applyOrder_key_order_counterexample:
  "mset [(''right'', Some ''x''), (''left'', Some ''x'')] = mset [(''left'', Some ''x''), (''right'', Some ''x'')]
   \<and> applyOrder (twoSlots\<lparr>previousMap := None\<rparr>) [(''left'', Some ''x''), (''right'', Some ''x'')] (kids twoSlots)
     = Inr ((\<lambda>e. [])(0 := [1, 2], 1 := [], 2 := [11]))
   \<and> applyOrder (twoSlots\<lparr>previousMap := None\<rparr>) [(''right'', Some ''x''), (''left'', Some ''x'')] (kids twoSlots)
     = Inr ((\<lambda>e. [])(0 := [1, 2], 1 := [11], 2 := []))"
  by (simp add: twoSlots_def run_simps fun_eq_iff)

text \<open>
  With slots inside items the key order decides whether the application completes,
  although every item is assigned once: placing \<open>x\<close> into \<open>b\<close> is refused while
  \<open>x\<close> contains \<open>b\<close>, and accepted once \<open>y\<close> has been moved out of \<open>x\<close>.
\<close>

lemma nested_order_matters:
  "threw (applyOrder nestedSlots
      [(''a'', None), (''d'', None), (''b'', Some ''x''), (''c'', Some ''y'')] (kids nestedSlots))
   \<and> applyOrder nestedSlots
      [(''a'', None), (''d'', None), (''c'', Some ''y''), (''b'', Some ''x'')] (kids nestedSlots)
     = Inr ((\<lambda>e. [])(0 := [1, 3], 3 := [14], 14 := [2], 2 := [11], 11 := [4]))"
  by (simp add: nestedSlots_def applyOrder_def applySlot_def previousGet_def appendChild_def
      clearInner_def threw_def contains_step fun_eq_iff)

text \<open>The swap \<open>{left: y, right: x}\<close> of the example page, in both key orders.\<close>

theorem applyOrder_key_order_witness:
  "applyOrder twoSlots [(''right'', Some ''x''), (''left'', Some ''y'')] (kids twoSlots)
     = Inr ((\<lambda>e. [])(0 := [1, 2], 1 := [12], 2 := [11]))
   \<and> applyOrder twoSlots [(''left'', Some ''y''), (''right'', Some ''x'')] (kids twoSlots)
     = Inr ((\<lambda>e. [])(0 := [1, 2], 1 := [12], 2 := [11]))"
proof -
  let ?m = "[(''left'', Some ''y''), (''right'', Some ''x'')]"
  let ?m' = "[(''right'', Some ''x''), (''left'', Some ''y'')]"
  have a: "applied twoSlots ?m = [(1, 12), (2, 11)]"
    by (simp add: applied_def target_def previousGet_def twoSlots_def List.map_filter_simps)
  have u: "unnested (applied twoSlots ?m) (kids twoSlots)"
    unfolding a by (simp add: unnested_def twoSlots_def contains_leaf)
  have p: "mset ?m' = mset ?m" by simp
  have r: "applyOrder twoSlots ?m (kids twoSlots) = Inr ((\<lambda>e. [])(0 := [1, 2], 1 := [12], 2 := [11]))"
    by (simp add: twoSlots_def run_simps fun_eq_iff)
  from applyOrder_key_order [OF p, of twoSlots "kids twoSlots"] a u r show ?thesis
    by simp
qed

text \<open>
  C6 (as amended). For a slot name of the candidate whose item id is \<open>null\<close> or empty,
  or whose slot id is not in the slot registry, or whose item id is not in the item
  registry, the loop body returns the children table it was given and throws nothing,
  and the whole application is the one that never visits that slot name. When distinct
  slot ids name distinct elements, the slot is never cleared and never appended to (so
  a \<open>null\<close> entry never clears its slot): whether the application returns or throws,
  the slot keeps its children in their order except for items that the application has
  placed into other slots, which are all such items when it returns; and it keeps its
  exact children when none of them is such an item.
\<close>

theorem applySlot_skips_silently:
  assumes "map_of m n = Some v"
    and "v = None \<or> v = Some [] \<or> slotElMap this n = None
          \<or> (\<exists>itemName. v = Some itemName \<and> itemElMap this itemName = None)"
  shows "applySlot this m n k = Inr k
       \<and> applyOrder this m k = forEachSlot this m (removeAll n (map fst m)) k
       \<and> (\<forall>p. slotElMap this n = Some p \<and> inj_on (slotElMap this) (dom (slotElMap this)) \<longrightarrow>
            p \<notin> fst ` set (applied this m)
            \<and> (\<exists>E. E \<subseteq> snd ` set (applied this m)
                  \<and> domAfter (applyOrder this m k) p = filter (\<lambda>c. c \<notin> E) (k p))
            \<and> (\<forall>k'. applyOrder this m k = Inr k' \<longrightarrow>
                  k' p = filter (\<lambda>c. c \<notin> snd ` set (applied this m)) (k p))
            \<and> ((\<forall>si\<in>set (applied this m). snd si \<notin> set (k p)) \<longrightarrow>
                  domAfter (applyOrder this m k) p = k p))"
proof -
  from assms have sk: "skipped this m n"
    by (auto simp: skipped_def split: option.splits)
  then have "applySlot this m n = Inr"
    by (auto simp: applySlot_skipped)
  then have one: "applySlot this m n k = Inr k
       \<and> applyOrder this m k = forEachSlot this m (removeAll n (map fst m)) k"
    using forEachSlot_drop [of this m n] by (simp add: applyOrder_def)
  have two: "p \<notin> fst ` set (applied this m)
            \<and> (\<exists>E. E \<subseteq> snd ` set (applied this m)
                  \<and> domAfter (applyOrder this m k) p = filter (\<lambda>c. c \<notin> E) (k p))
            \<and> (\<forall>k'. applyOrder this m k = Inr k' \<longrightarrow>
                  k' p = filter (\<lambda>c. c \<notin> snd ` set (applied this m)) (k p))
            \<and> ((\<forall>si\<in>set (applied this m). snd si \<notin> set (k p)) \<longrightarrow>
                  domAfter (applyOrder this m k) p = k p)"
    if p: "slotElMap this n = Some p" and inj: "inj_on (slotElMap this) (dom (slotElMap this))"
    for p
  proof -
    from sk have "target this m n = None" by (rule skipped_target)
    from skipped_not_target [OF this p inj] have out: "p \<notin> fst ` set (applied this m)" .
    have loses: "\<exists>E. E \<subseteq> snd ` set (applied this m)
        \<and> domAfter (applyOrder this m k) p = filter (\<lambda>c. c \<notin> E) (k p)"
      using placeAll_loses [OF out, of k] by (simp add: applyOrder_placeAll)
    have completed: "k' p = filter (\<lambda>c. c \<notin> snd ` set (applied this m)) (k p)"
      if "applyOrder this m k = Inr k'" for k'
      using that out by (simp add: applyOrder_placeAll placeAll_other)
    have same: "domAfter (applyOrder this m k) p = k p"
      if "\<forall>si\<in>set (applied this m). snd si \<notin> set (k p)"
    proof -
      from that have "\<forall>c\<in>set (k p). c \<notin> snd ` set (applied this m)" by force
      with out show ?thesis by (simp add: applyOrder_placeAll placeAll_frame)
    qed
    from out loses completed same show ?thesis by blast
  qed
  from one two show ?thesis by blast
qed

text \<open>
  The example page, stored \<open>{left: x, right: y}\<close>, candidate \<open>{left: null, right: x}\<close>:
  the entry of \<open>left\<close> is \<open>null\<close>, and slot \<open>left\<close> loses item \<open>x\<close> to slot \<open>right\<close>.
\<close>

theorem applySlot_skips_silently_counterexample:
  "map_of [(''left'', None), (''right'', Some ''x'')] ''left'' = Some None
   \<and> slotElMap twoSlots ''left'' = Some 1
   \<and> kids twoSlots 1 = [11]
   \<and> applyOrder twoSlots [(''left'', None), (''right'', Some ''x'')] (kids twoSlots)
     = Inr ((\<lambda>e. [])(0 := [1, 2], 1 := [], 2 := [11]))"
  by (simp add: twoSlots_def run_simps fun_eq_iff)

text \<open>
  The page with the spare item, candidate \<open>{left: null, right: z}\<close>: slot name \<open>left\<close>
  is skipped and slot \<open>left\<close> keeps item \<open>x\<close>, while slot \<open>right\<close> gets item \<open>z\<close>.
\<close>

theorem applySlot_skips_silently_witness:
  "applySlot threeItems [(''left'', None), (''right'', Some ''z'')] ''left'' (kids threeItems)
     = Inr (kids threeItems)
   \<and> applyOrder threeItems [(''left'', None), (''right'', Some ''z'')] (kids threeItems)
     = Inr ((\<lambda>e. [])(0 := [1, 2], 1 := [11], 2 := [13]))
   \<and> domAfter (applyOrder threeItems [(''left'', None), (''right'', Some ''z'')] (kids threeItems)) 1
     = kids threeItems 1"
proof -
  let ?m = "[(''left'', None), (''right'', Some ''z'')]"
  have inj: "inj_on (slotElMap threeItems) (dom (slotElMap threeItems))"
    by (auto simp: threeItems_def twoSlots_def inj_on_def split: if_splits)
  have slot: "slotElMap threeItems ''left'' = Some 1"
    by (simp add: threeItems_def twoSlots_def)
  have kept: "\<forall>si\<in>set (applied threeItems ?m). snd si \<notin> set (kids threeItems 1)"
    by (simp add: applied_def target_def previousGet_def threeItems_def twoSlots_def
        List.map_filter_simps)
  have run: "applyOrder threeItems ?m (kids threeItems)
      = Inr ((\<lambda>e. [])(0 := [1, 2], 1 := [11], 2 := [13]))"
    by (simp add: threeItems_def twoSlots_def run_simps fun_eq_iff)
  have entry: "map_of ?m ''left'' = Some None" by simp
  have null: "None = None \<or> None = Some [] \<or> slotElMap threeItems ''left'' = None
      \<or> (\<exists>itemName. None = Some itemName \<and> itemElMap threeItems itemName = None)"
    by simp
  from applySlot_skips_silently [OF entry null, where k = "kids threeItems"]
  have step: "applySlot threeItems ?m ''left'' (kids threeItems) = Inr (kids threeItems)"
    and frame: "\<forall>p. slotElMap threeItems ''left'' = Some p
        \<and> inj_on (slotElMap threeItems) (dom (slotElMap threeItems)) \<longrightarrow>
          ((\<forall>si\<in>set (applied threeItems ?m). snd si \<notin> set (kids threeItems p)) \<longrightarrow>
             domAfter (applyOrder threeItems ?m (kids threeItems)) p = kids threeItems p)"
    by blast+
  from frame slot inj kept
  have "domAfter (applyOrder threeItems ?m (kids threeItems)) 1 = kids threeItems 1"
    by blast
  with step run show ?thesis by simp
qed

section \<open>The swap handler\<close>



section \<open>A swap before the init event\<close>

text \<open>
  C9 (as amended). While no map is stored, a swap event is never suppressed and the
  diff is applied with every lookup into the prior map yielding no entry: the loop
  reparents for a slot name exactly when its candidate item id is a non-empty string and
  both registry lookups succeed, and at its turn such a slot is cleared and receives its
  item. When no item to place is an inclusive ancestor of a slot to fill, the
  application completes and the callback is invoked, whatever the DOM held before;
  every slot element that is not filled then keeps its children except the items
  placed, and when no two applied entries name the same slot element or the same item
  element, every filled slot holds exactly its item. When \<open>appendChild\<close> is refused, the
  handler throws: the callback is not invoked and no map is stored.
\<close>

theorem onSwap_before_init:
  assumes "previousMap this = None"
  shows "\<not> suppressed event this
       \<and> (\<forall>n slot item.
            target this (emap event) n = Some (slot, item) \<longleftrightarrow>
              (\<exists>itemName. map_of (emap event) n = Some (Some itemName) \<and> itemName \<noteq> []
                 \<and> slotElMap this n = Some slot \<and> itemElMap this itemName = Some item))
       \<and> (\<forall>n slot item k.
            target this (emap event) n = Some (slot, item) \<longrightarrow>
              applySlot this (emap event) n k = place slot item k
              \<and> (\<forall>k'. place slot item k = Inr k' \<longrightarrow> k' slot = [item]))
       \<and> (unnested (applied this (emap event)) (kids this) \<longrightarrow>
            (\<exists>k'. applyOrder this (emap event) (kids this) = Inr k'
               \<and> kids (pageAfter (onSwap event this)) = k'
               \<and> (\<forall>p. p \<notin> fst ` set (applied this (emap event)) \<longrightarrow>
                     k' p = filter (\<lambda>c. c \<notin> snd ` set (applied this (emap event))) (kids this p))
               \<and> (distinct (map fst (applied this (emap event)))
                    \<and> distinct (map snd (applied this (emap event))) \<longrightarrow>
                      (\<forall>si\<in>set (applied this (emap event)). k' (fst si) = [snd si])))
            \<and> calls (pageAfter (onSwap event this)) = calls this @ invoke (swapCallback this) event
            \<and> (\<not> throwsOn (swapCallback this) event \<longrightarrow>
                 \<not> threw (onSwap event this)
                 \<and> previousMap (pageAfter (onSwap event this)) = Some (emap event)))
       \<and> (threw (applyOrder this (emap event) (kids this)) \<longrightarrow>
            threw (onSwap event this)
            \<and> calls (pageAfter (onSwap event this)) = calls this
            \<and> previousMap (pageAfter (onSwap event this)) = None)
       \<and> kids (pageAfter (onSwap event this)) = domAfter (applyOrder this (emap event) (kids this))"
proof -
  let ?m = "emap event"
  let ?ps = "applied this ?m"
  let ?r = "onSwap event this"
  from assms have a: "\<not> suppressed event this"
    by (simp add: suppressed_def)
  have t: "target this ?m n = Some (slot, item) \<longleftrightarrow>
              (\<exists>itemName. map_of ?m n = Some (Some itemName) \<and> itemName \<noteq> []
                 \<and> slotElMap this n = Some slot \<and> itemElMap this itemName = Some item)"
    for n slot item
    using assms by (auto simp: target_def previousGet_def split: option.splits)
  have b: "applySlot this ?m n k = place slot item k
              \<and> (\<forall>k'. place slot item k = Inr k' \<longrightarrow> k' slot = [item])"
    if "target this ?m n = Some (slot, item)" for n slot item k
    using that by (simp add: applySlot_target place_receives)
  have c: "(\<exists>k'. applyOrder this ?m (kids this) = Inr k'
               \<and> kids (pageAfter ?r) = k'
               \<and> (\<forall>p. p \<notin> fst ` set ?ps \<longrightarrow>
                     k' p = filter (\<lambda>c. c \<notin> snd ` set ?ps) (kids this p))
               \<and> (distinct (map fst ?ps) \<and> distinct (map snd ?ps) \<longrightarrow>
                      (\<forall>si\<in>set ?ps. k' (fst si) = [snd si])))
            \<and> calls (pageAfter ?r) = calls this @ invoke (swapCallback this) event
            \<and> (\<not> throwsOn (swapCallback this) event \<longrightarrow>
                 \<not> threw ?r \<and> previousMap (pageAfter ?r) = Some ?m)"
    if u: "unnested ?ps (kids this)"
  proof -
    from placeAll_unnested [OF u subset_refl]
    obtain k' where k': "placeAll ?ps (kids this) = Inr k'" by blast
    then have run: "applyOrder this ?m (kids this) = Inr k'"
      by (simp add: applyOrder_placeAll)
    from a run have page: "kids (pageAfter ?r) = k'"
      "calls (pageAfter ?r) = calls this @ invoke (swapCallback this) event"
      "\<not> throwsOn (swapCallback this) event \<longrightarrow>
         \<not> threw ?r \<and> previousMap (pageAfter ?r) = Some ?m"
      by (simp_all add: onSwap_def pageAfter_def threw_def)
    have filled: "\<forall>si\<in>set ?ps. k' (fst si) = [snd si]"
      if "distinct (map fst ?ps)" "distinct (map snd ?ps)"
      using placeAll_receives [OF k' that] by auto
    have others: "\<forall>p. p \<notin> fst ` set ?ps \<longrightarrow>
        k' p = filter (\<lambda>c. c \<notin> snd ` set ?ps) (kids this p)"
      using placeAll_other [OF k'] by blast
    from run page filled others show ?thesis by blast
  qed
  have d: "threw ?r \<and> calls (pageAfter ?r) = calls this \<and> previousMap (pageAfter ?r) = None"
    if "threw (applyOrder this ?m (kids this))"
    using that a assms
    by (auto simp: onSwap_def pageAfter_def threw_def split: sum.splits)
  have e: "kids (pageAfter ?r) = domAfter (applyOrder this ?m (kids this))"
    using a by (auto simp: onSwap_def pageAfter_def domAfter_def split: sum.splits)
  have t': "\<forall>n slot item.
            target this ?m n = Some (slot, item) \<longleftrightarrow>
              (\<exists>itemName. map_of ?m n = Some (Some itemName) \<and> itemName \<noteq> []
                 \<and> slotElMap this n = Some slot \<and> itemElMap this itemName = Some item)"
    by (intro allI) (rule t)
  have b': "\<forall>n slot item k.
            target this ?m n = Some (slot, item) \<longrightarrow>
              applySlot this ?m n k = place slot item k
              \<and> (\<forall>k'. place slot item k = Inr k' \<longrightarrow> k' slot = [item])"
    by (intro allI impI) (rule b)
  from c have c': "unnested ?ps (kids this) \<longrightarrow>
            (\<exists>k'. applyOrder this ?m (kids this) = Inr k'
               \<and> kids (pageAfter ?r) = k'
               \<and> (\<forall>p. p \<notin> fst ` set ?ps \<longrightarrow>
                     k' p = filter (\<lambda>c. c \<notin> snd ` set ?ps) (kids this p))
               \<and> (distinct (map fst ?ps) \<and> distinct (map snd ?ps) \<longrightarrow>
                      (\<forall>si\<in>set ?ps. k' (fst si) = [snd si])))
            \<and> calls (pageAfter ?r) = calls this @ invoke (swapCallback this) event
            \<and> (\<not> throwsOn (swapCallback this) event \<longrightarrow>
                 \<not> threw ?r \<and> previousMap (pageAfter ?r) = Some ?m)"
    by (rule impI)
  from d have d': "threw (applyOrder this ?m (kids this)) \<longrightarrow>
      threw ?r \<and> calls (pageAfter ?r) = calls this \<and> previousMap (pageAfter ?r) = None"
    by (rule impI)
  from a t' b' c' d' e show ?thesis
    by - (intro conjI, assumption+)
qed

text \<open>
  Before any init event on the page with slots inside items: the registry lookups for
  \<open>b\<close> and \<open>x\<close> and for \<open>c\<close> and \<open>y\<close> succeed, placing \<open>x\<close> into \<open>b\<close> is refused, the
  handler throws, the callback is not invoked and slot \<open>c\<close> does not receive \<open>y\<close>.
\<close>

theorem onSwap_before_init_counterexample:
  "previousMap (nestedSlots\<lparr>swapCallback := Some listener, previousMap := None\<rparr>) = None
   \<and> slotElMap nestedSlots ''b'' = Some 2 \<and> itemElMap nestedSlots ''x'' = Some 11
   \<and> slotElMap nestedSlots ''c'' = Some 3 \<and> itemElMap nestedSlots ''y'' = Some 14
   \<and> onSwap \<lparr>emap = [(''a'', None), (''d'', None), (''b'', Some ''x''), (''c'', Some ''y'')],
              emeta = ''drop''\<rparr>
        (nestedSlots\<lparr>swapCallback := Some listener, previousMap := None\<rparr>)
     = Inl (DomException HierarchyRequestError,
            nestedSlots\<lparr>swapCallback := Some listener, previousMap := None\<rparr>)
   \<and> calls nestedSlots = []
   \<and> kids nestedSlots 2 = [] \<and> kids nestedSlots 3 = []"
  by (simp add: onSwap_def suppressed_def nestedSlots_def run_simps fun_eq_iff)

text \<open>
  An item id that is the empty string is not \<open>null\<close> and may be registered, yet its
  slot is skipped: slot \<open>left\<close> keeps item \<open>x\<close> and does not receive element 13.
\<close>

lemma before_init_empty_id:
  "itemElMap (threeItems\<lparr>itemElMap := [''x'' \<mapsto> 11, ''y'' \<mapsto> 12, [] \<mapsto> 13], previousMap := None\<rparr>) []
     = Some 13
   \<and> kids (pageAfter (onSwap \<lparr>emap = [(''left'', Some []), (''right'', Some ''y'')], emeta = ''drop''\<rparr>
        (threeItems\<lparr>itemElMap := [''x'' \<mapsto> 11, ''y'' \<mapsto> 12, [] \<mapsto> 13], previousMap := None\<rparr>))) 1
     = [11]"
  by (simp add: onSwap_def suppressed_def threeItems_def twoSlots_def run_simps pageAfter_def
      listener_returns)

text \<open>
  An item id assigned to two slots: both lookups of slot \<open>left\<close> succeed, yet after the
  completed application slot \<open>left\<close> is empty, the item having gone on to slot \<open>right\<close>.
\<close>

lemma before_init_item_twice:
  "\<not> threw (onSwap \<lparr>emap = [(''left'', Some ''x''), (''right'', Some ''x'')], emeta = ''drop''\<rparr>
        (twoSlots\<lparr>previousMap := None\<rparr>))
   \<and> kids (pageAfter (onSwap \<lparr>emap = [(''left'', Some ''x''), (''right'', Some ''x'')], emeta = ''drop''\<rparr>
        (twoSlots\<lparr>previousMap := None\<rparr>))) 1 = []
   \<and> kids (pageAfter (onSwap \<lparr>emap = [(''left'', Some ''x''), (''right'', Some ''x'')], emeta = ''drop''\<rparr>
        (twoSlots\<lparr>previousMap := None\<rparr>))) 2 = [11]"
  by (simp add: onSwap_def suppressed_def twoSlots_def run_simps pageAfter_def listener_returns)

text \<open>
  Before any init event on the example page: the swap \<open>{left: y, right: x}\<close> exchanges
  the two items and invokes the callback; the candidate \<open>{left: x, right: y}\<close>, which is
  the arrangement the DOM already has, leaves the arrangement and invokes the callback
  all the same.
\<close>

theorem onSwap_before_init_witness:
  "previousMap (twoSlots\<lparr>previousMap := None\<rparr>) = None
   \<and> unnested (applied (twoSlots\<lparr>previousMap := None\<rparr>) [(''left'', Some ''y''), (''right'', Some ''x'')])
       (kids twoSlots)
   \<and> kids (pageAfter (onSwap \<lparr>emap = [(''left'', Some ''y''), (''right'', Some ''x'')], emeta = ''drop''\<rparr>
        (twoSlots\<lparr>previousMap := None\<rparr>))) 1 = [12]
   \<and> kids (pageAfter (onSwap \<lparr>emap = [(''left'', Some ''y''), (''right'', Some ''x'')], emeta = ''drop''\<rparr>
        (twoSlots\<lparr>previousMap := None\<rparr>))) 2 = [11]
   \<and> kids (pageAfter (onSwap \<lparr>emap = [(''left'', Some ''y''), (''right'', Some ''x'')], emeta = ''drop''\<rparr>
        (twoSlots\<lparr>previousMap := None\<rparr>))) 0 = [1, 2]
   \<and> calls (pageAfter (onSwap \<lparr>emap = [(''left'', Some ''y''), (''right'', Some ''x'')], emeta = ''drop''\<rparr>
        (twoSlots\<lparr>previousMap := None\<rparr>)))
     = [(listener, \<lparr>emap = [(''left'', Some ''y''), (''right'', Some ''x'')], emeta = ''drop''\<rparr>)]
   \<and> previousMap (pageAfter (onSwap \<lparr>emap = [(''left'', Some ''y''), (''right'', Some ''x'')], emeta = ''drop''\<rparr>
        (twoSlots\<lparr>previousMap := None\<rparr>)))
     = Some [(''left'', Some ''y''), (''right'', Some ''x'')]
   \<and> kids (pageAfter (onSwap \<lparr>emap = [(''left'', Some ''x''), (''right'', Some ''y'')], emeta = ''drop''\<rparr>
        (twoSlots\<lparr>previousMap := None\<rparr>))) 1 = [11]
   \<and> calls (pageAfter (onSwap \<lparr>emap = [(''left'', Some ''x''), (''right'', Some ''y'')], emeta = ''drop''\<rparr>
        (twoSlots\<lparr>previousMap := None\<rparr>)))
     = [(listener, \<lparr>emap = [(''left'', Some ''x''), (''right'', Some ''y'')], emeta = ''drop''\<rparr>)]"
proof -
  let ?p = "twoSlots\<lparr>previousMap := None\<rparr>"
  let ?ev = "\<lparr>emap = [(''left'', Some ''y''), (''right'', Some ''x'')], emeta = ''drop''\<rparr>"
  let ?same = "\<lparr>emap = [(''left'', Some ''x''), (''right'', Some ''y'')], emeta = ''drop''\<rparr>"
  have unset: "previousMap ?p = None" by simp
  have ps: "applied ?p (emap ?ev) = [(1, 12), (2, 11)]"
    by (simp add: applied_def target_def previousGet_def List.map_filter_def twoSlots_def)
  have ps': "applied ?p (emap ?same) = [(1, 11), (2, 12)]"
    by (simp add: applied_def target_def previousGet_def List.map_filter_def twoSlots_def)
  have k: "kids ?p = (\<lambda>e. [])(0 := [1, 2], 1 := [11], 2 := [12])"
    by (simp add: twoSlots_def)
  have u: "unnested (applied ?p (emap ?ev)) (kids ?p)"
    unfolding ps k by (simp add: unnested_def contains_step)
  have u': "unnested (applied ?p (emap ?same)) (kids ?p)"
    unfolding ps' k by (simp add: unnested_def contains_step)
  have q: "\<not> throwsOn (swapCallback ?p) event" for event
    by (simp add: twoSlots_def listener_returns)
  note swap = onSwap_before_init [OF unset, of ?ev, THEN conjunct2, THEN conjunct2, THEN conjunct2,
    THEN conjunct1, THEN mp, OF u]
  note same = onSwap_before_init [OF unset, of ?same, THEN conjunct2, THEN conjunct2, THEN conjunct2,
    THEN conjunct1, THEN mp, OF u']
  from swap obtain k' where after: "kids (pageAfter (onSwap ?ev ?p)) = k'"
    and others: "\<forall>p. p \<notin> fst ` set (applied ?p (emap ?ev)) \<longrightarrow>
         k' p = filter (\<lambda>c. c \<notin> snd ` set (applied ?p (emap ?ev))) (kids ?p p)"
    and filled: "distinct (map fst (applied ?p (emap ?ev)))
         \<and> distinct (map snd (applied ?p (emap ?ev))) \<longrightarrow>
           (\<forall>si\<in>set (applied ?p (emap ?ev)). k' (fst si) = [snd si])"
    by blast
  from filled have "k' 1 = [12]" "k' 2 = [11]"
    unfolding ps by simp_all
  moreover from others [rule_format, of 0] have "k' 0 = [1, 2]"
    unfolding ps k by simp
  moreover from swap q have "calls (pageAfter (onSwap ?ev ?p)) = [(listener, ?ev)]"
    "previousMap (pageAfter (onSwap ?ev ?p)) = Some (emap ?ev)"
    by (simp_all add: twoSlots_def invoke_def)
  moreover from same obtain k'' where "kids (pageAfter (onSwap ?same ?p)) = k''"
    and "distinct (map fst (applied ?p (emap ?same)))
         \<and> distinct (map snd (applied ?p (emap ?same))) \<longrightarrow>
           (\<forall>si\<in>set (applied ?p (emap ?same)). k'' (fst si) = [snd si])"
    by blast
  then have "kids (pageAfter (onSwap ?same ?p)) 1 = [11]"
    unfolding ps' by simp
  moreover from same have "calls (pageAfter (onSwap ?same ?p)) = [(listener, ?same)]"
    by (simp add: twoSlots_def invoke_def)
  ultimately show ?thesis
    using unset u after by simp
qed

section \<open>The stored map after a swap\<close>

text \<open>
  C10 (as amended). After a swap event that is not suppressed, the stored map is the
  candidate exactly when the handler completes, that is when \<open>appendChild\<close> is never
  refused and the callback does not throw; otherwise the stored map is the old one. The
  handler completes whenever the callback returns and no item to place is an inclusive
  ancestor of a slot to fill, in particular when every slot name was skipped: then the
  children table is as it was, the callback is invoked and the candidate is stored all
  the same. After a completed handler, delivering the same event again is suppressed
  and changes nothing.
\<close>

theorem onSwap_stores_unapplied_map:
  assumes "\<not> suppressed event this"
  shows "previousMap (pageAfter (onSwap event this)) =
           (if threw (applyOrder this (emap event) (kids this)) \<or> throwsOn (swapCallback this) event
            then previousMap this else Some (emap event))
       \<and> (threw (onSwap event this) \<longleftrightarrow>
            threw (applyOrder this (emap event) (kids this)) \<or> throwsOn (swapCallback this) event)
       \<and> (unnested (applied this (emap event)) (kids this) \<longrightarrow>
            \<not> threw (applyOrder this (emap event) (kids this)))
       \<and> ((\<forall>n\<in>set (map fst (emap event)). skipped this (emap event) n) \<longrightarrow>
            \<not> threw (applyOrder this (emap event) (kids this))
            \<and> kids (pageAfter (onSwap event this)) = kids this
            \<and> calls (pageAfter (onSwap event this)) = calls this @ invoke (swapCallback this) event)
       \<and> (\<forall>this'. onSwap event this = Inr this' \<longrightarrow>
            previousMap this' = Some (emap event) \<and> suppressed event this'
            \<and> onSwap event this' = Inr this')"
proof -
  let ?m = "emap event"
  let ?r = "onSwap event this"
  have stored: "previousMap (pageAfter ?r) =
           (if threw (applyOrder this ?m (kids this)) \<or> throwsOn (swapCallback this) event
            then previousMap this else Some ?m)"
    using assms by (auto simp: onSwap_def pageAfter_def threw_def split: sum.splits)
  have throws: "threw ?r \<longleftrightarrow>
      threw (applyOrder this ?m (kids this)) \<or> throwsOn (swapCallback this) event"
    using assms by (auto simp: onSwap_def threw_def split: sum.splits)
  have completes: "\<not> threw (applyOrder this ?m (kids this))"
    if "unnested (applied this ?m) (kids this)"
    using placeAll_unnested [OF that subset_refl]
    by (auto simp: applyOrder_placeAll threw_def)
  have untouched: "\<not> threw (applyOrder this ?m (kids this))
            \<and> kids (pageAfter ?r) = kids this
            \<and> calls (pageAfter ?r) = calls this @ invoke (swapCallback this) event"
    if "\<forall>n\<in>set (map fst ?m). skipped this ?m n"
  proof -
    from that have "applyOrder this ?m (kids this) = Inr (kids this)"
      unfolding applyOrder_def by (rule forEachSlot_all_skipped)
    with assms show ?thesis
      by (simp add: onSwap_def pageAfter_def threw_def)
  qed
  have again: "\<forall>this'. ?r = Inr this' \<longrightarrow>
            previousMap this' = Some ?m \<and> suppressed event this' \<and> onSwap event this' = Inr this'"
  proof (intro allI impI)
    fix this' assume "?r = Inr this'"
    with assms have "previousMap this' = Some ?m"
      by (auto simp: onSwap_def split: sum.splits if_splits)
    then show "previousMap this' = Some ?m \<and> suppressed event this' \<and> onSwap event this' = Inr this'"
      by (simp add: suppressed_same onSwap_def)
  qed
  from completes have completes': "unnested (applied this ?m) (kids this) \<longrightarrow>
      \<not> threw (applyOrder this ?m (kids this))"
    by (rule impI)
  have untouched': "(\<forall>n\<in>set (map fst ?m). skipped this ?m n) \<longrightarrow>
            \<not> threw (applyOrder this ?m (kids this))
            \<and> kids (pageAfter ?r) = kids this
            \<and> calls (pageAfter ?r) = calls this @ invoke (swapCallback this) event"
    by (intro impI) (rule untouched)
  from stored throws completes' untouched' again show ?thesis
    by - (intro conjI, assumption+)
qed

text \<open>
  A callback that throws: the swap \<open>{left: y, right: x}\<close> is not suppressed, the two
  items are exchanged and the callback is invoked, yet the stored map is still the one
  of the init event.
\<close>

theorem onSwap_stores_unapplied_map_counterexample:
  "\<not> suppressed \<lparr>emap = [(''left'', Some ''y''), (''right'', Some ''x'')], emeta = ''drop''\<rparr>
        (twoSlots\<lparr>swapCallback := Some thrower\<rparr>)
   \<and> onSwap \<lparr>emap = [(''left'', Some ''y''), (''right'', Some ''x'')], emeta = ''drop''\<rparr>
        (twoSlots\<lparr>swapCallback := Some thrower\<rparr>)
     = Inl (CallbackException,
            twoSlots\<lparr>swapCallback := Some thrower,
                     kids := (\<lambda>e. [])(0 := [1, 2], 1 := [12], 2 := [11]),
                     calls := [(thrower, \<lparr>emap = [(''left'', Some ''y''), (''right'', Some ''x'')], emeta = ''drop''\<rparr>)]\<rparr>)
   \<and> previousMap twoSlots = Some [(''left'', Some ''x''), (''right'', Some ''y'')]"
  by (simp add: onSwap_def suppressed_def mapsAreEqual_def invoke_def twoSlots_def run_simps
      fun_eq_iff thrower_throws doubleton_eq_iff)

text \<open>
  A refused \<open>appendChild\<close>: on the page with slots inside items the event is not
  suppressed, the handler throws, and the stored map is still the old one.
\<close>

lemma refused_keeps_map:
  "\<not> suppressed \<lparr>emap = [(''a'', None), (''d'', None), (''b'', Some ''x''), (''c'', Some ''y'')],
                   emeta = ''drop''\<rparr> nestedSlots
   \<and> onSwap \<lparr>emap = [(''a'', None), (''d'', None), (''b'', Some ''x''), (''c'', Some ''y'')],
              emeta = ''drop''\<rparr> nestedSlots
     = Inl (DomException HierarchyRequestError, nestedSlots)
   \<and> previousMap nestedSlots = Some [(''a'', Some ''x''), (''d'', Some ''y''), (''b'', None), (''c'', None)]"
  by (auto simp: onSwap_def suppressed_def mapsAreEqual_def nestedSlots_def run_simps fun_eq_iff)

text \<open>
  The swap \<open>{left: y, right: x}\<close> on the example page is stored after the items have been
  exchanged. With an empty item registry the same swap moves nothing, is stored all the
  same, and is suppressed when delivered again.
\<close>

theorem onSwap_stores_unapplied_map_witness:
  "\<not> suppressed \<lparr>emap = [(''left'', Some ''y''), (''right'', Some ''x'')], emeta = ''drop''\<rparr> twoSlots
   \<and> previousMap (pageAfter (onSwap \<lparr>emap = [(''left'', Some ''y''), (''right'', Some ''x'')], emeta = ''drop''\<rparr>
        twoSlots)) = Some [(''left'', Some ''y''), (''right'', Some ''x'')]
   \<and> \<not> threw (onSwap \<lparr>emap = [(''left'', Some ''y''), (''right'', Some ''x'')], emeta = ''drop''\<rparr> twoSlots)
   \<and> (\<exists>this'. onSwap \<lparr>emap = [(''left'', Some ''y''), (''right'', Some ''x'')], emeta = ''drop''\<rparr>
        (twoSlots\<lparr>itemElMap := Map.empty\<rparr>) = Inr this'
      \<and> previousMap this' = Some [(''left'', Some ''y''), (''right'', Some ''x'')]
      \<and> kids this' = kids twoSlots
      \<and> calls this' = [(listener, \<lparr>emap = [(''left'', Some ''y''), (''right'', Some ''x'')], emeta = ''drop''\<rparr>)]
      \<and> onSwap \<lparr>emap = [(''left'', Some ''y''), (''right'', Some ''x'')], emeta = ''drop''\<rparr> this'
          = Inr this')"
proof -
  let ?ev = "\<lparr>emap = [(''left'', Some ''y''), (''right'', Some ''x'')], emeta = ''drop''\<rparr>"
  let ?p = "twoSlots\<lparr>itemElMap := Map.empty\<rparr>"
  have n: "\<not> suppressed ?ev twoSlots"
    by (simp add: suppressed_def mapsAreEqual_def twoSlots_def doubleton_eq_iff)
  have n': "\<not> suppressed ?ev ?p"
    by (simp add: suppressed_def mapsAreEqual_def twoSlots_def doubleton_eq_iff)
  have ps: "applied twoSlots (emap ?ev) = [(1, 12), (2, 11)]"
    by (simp add: applied_def target_def previousGet_def List.map_filter_def twoSlots_def)
  have k: "kids twoSlots = (\<lambda>e. [])(0 := [1, 2], 1 := [11], 2 := [12])"
    by (simp add: twoSlots_def)
  have u: "unnested (applied twoSlots (emap ?ev)) (kids twoSlots)"
    unfolding ps k by (simp add: unnested_def contains_step)
  have q: "\<not> throwsOn (swapCallback twoSlots) ?ev" "\<not> throwsOn (swapCallback ?p) ?ev"
    by (simp_all add: twoSlots_def listener_returns)
  have s: "\<forall>n\<in>set (map fst (emap ?ev)). skipped ?p (emap ?ev) n"
    by (simp add: skipped_def)
  note swap = onSwap_stores_unapplied_map [OF n]
  from swap [THEN conjunct2, THEN conjunct2, THEN conjunct1] u
  have c: "\<not> threw (applyOrder twoSlots (emap ?ev) (kids twoSlots))" by blast
  with swap [THEN conjunct1] swap [THEN conjunct2, THEN conjunct1] q
  have one: "previousMap (pageAfter (onSwap ?ev twoSlots)) = Some (emap ?ev)"
    "\<not> threw (onSwap ?ev twoSlots)"
    by simp_all
  note unapplied = onSwap_stores_unapplied_map [OF n']
  from unapplied [THEN conjunct2, THEN conjunct2, THEN conjunct2, THEN conjunct1] s
  have d: "\<not> threw (applyOrder ?p (emap ?ev) (kids ?p))"
    "kids (pageAfter (onSwap ?ev ?p)) = kids ?p"
    "calls (pageAfter (onSwap ?ev ?p)) = calls ?p @ invoke (swapCallback ?p) ?ev"
    by blast+
  with unapplied [THEN conjunct2, THEN conjunct1] q have "\<not> threw (onSwap ?ev ?p)"
    by simp
  then obtain this' where r: "onSwap ?ev ?p = Inr this'"
    by (cases "onSwap ?ev ?p") (simp_all add: threw_def)
  with d have "kids this' = kids twoSlots" "calls this' = [(listener, ?ev)]"
    by (simp_all add: pageAfter_def twoSlots_def invoke_def)
  moreover from unapplied [THEN conjunct2, THEN conjunct2, THEN conjunct2, THEN conjunct2] r
  have "previousMap this' = Some (emap ?ev)" "onSwap ?ev this' = Inr this'"
    by blast+
  ultimately show ?thesis
    using n one r by simp
qed

end
